theory Spec2Isabelle
  imports Main
begin

section \<open>Data model of the Shenandoah root processor\<close>

text \<open>
  The source under verification is the template member function
  \<^verbatim>\<open>ShenandoahRootProcessor::update_all_roots<IsAlive>\<close> of
  \<^verbatim>\<open>shenandoahRootProcessor.inline.hpp\<close>. It mutates the claim flags of
  \<^verbatim>\<open>_process_strong_tasks\<close> and the worker timing table, and it calls visitors
  whose only effect is to invoke caller-owned closures. The model threads one
  record through every call; the invocations are recorded, in order, in a trace.
\<close>

type_synonym oop = nat
type_synonym closure = nat
type_synonym worker = nat

text \<open>
  Modelled from the spec: the subtask catalog (section 3, Subtask identity). The
  enumeration is declared in \<^verbatim>\<open>shenandoahRootProcessor.hpp\<close>, which is not among
  the sources; only the index \<^verbatim>\<open>SHENANDOAH_RP_PS_JNIHandles_weak_oops_do\<close> occurs
  in the code. The four others are the strong-root categories the spec lists.
\<close>

datatype subtask =
    SHENANDOAH_RP_PS_JNIHandles_weak_oops_do
  | Class_metadata_roots
  | Code_roots
  | Thread_roots
  | Misc_strong_roots

text \<open>
  Modelled from the spec: the phase tags of the timing table. The code names
  \<^verbatim>\<open>ShenandoahPhaseTimings::JNIWeakRoots\<close>; each strong subtask has a phase tag
  of its own (section 4.2, step 2).
\<close>

datatype phase =
    JNIWeakRoots
  | Class_metadata_phase
  | Code_phase
  | Thread_phase
  | Misc_strong_phase

datatype root_source = Weak_handle_table | Strong_category subtask | Dedup_table

text \<open>What an observer of one phase can see, in program order.\<close>

datatype event =
    IsAlive_new nat
  | Claim_attempt subtask bool
  | Timing_start phase worker
  | Timing_write phase worker nat
  | Weak_oops_do_call nat closure
  | Process_all_roots_call closure closure closure closure worker
  | Parallel_oops_do_call nat closure worker
  | Visit root_source closure oop

text \<open>
  The mutable state of one phase instance: the claim flags of
  \<^verbatim>\<open>_process_strong_tasks\<close>, the table behind \<^verbatim>\<open>worker_times\<close>, the clock the
  timing tracker reads, the number of \<^verbatim>\<open>IsAlive\<close> objects constructed so far
  (the next instance gets this number as its identity), and the trace.
\<close>

record phase_state =
  process_strong_tasks :: "subtask set"
  worker_times :: "phase \<times> worker \<Rightarrow> nat"
  clock :: nat
  instances :: nat
  trace :: "event list"

text \<open>
  What the heap and the external tables supply and the root processor only reads:
  the deduplication switch, the candidates of the weak-handle table, the roots of
  each strong category, the partition of the deduplication table a worker gets,
  and the time one visit takes.
\<close>

record heap_env =
  is_enabled :: bool
  weak_table :: "oop list"
  strong_roots :: "subtask \<Rightarrow> oop list"
  dedup_partition :: "worker \<Rightarrow> oop list"
  visit_cost :: "oop \<Rightarrow> nat"

text \<open>
  An object of the template parameter \<^verbatim>\<open>IsAlive\<close>: its identity and the predicate
  its class implements.
\<close>

record liveness_filter =
  instance_id :: nat
  do_object_b :: "oop \<Rightarrow> bool"

record tracker =
  tracker_phase :: phase
  tracker_worker :: worker
  start_time :: nat

section \<open>Collaborators\<close>

definition emit :: "event \<Rightarrow> phase_state \<Rightarrow> phase_state" where
  "emit e s = s\<lparr>trace := trace s @ [e]\<rparr>"

text \<open>The declaration \<^verbatim>\<open>IsAlive is_alive;\<close>: a default-constructed object.\<close>

definition IsAlive_ctor :: "(oop \<Rightarrow> bool) \<Rightarrow> phase_state \<Rightarrow> liveness_filter \<times> phase_state" where
  "IsAlive_ctor IsAlive s =
     (\<lparr>instance_id = instances s, do_object_b = IsAlive\<rparr>,
      emit (IsAlive_new (instances s)) (s\<lparr>instances := Suc (instances s)\<rparr>))"

text \<open>
  Modelled from the spec: the claim primitive of the ClaimableTaskSet (section 4.1),
  whose class is not among the sources. The code's \<^verbatim>\<open>is_task_claimed(t)\<close> is the
  claim attempt of section 4.3, step 2: it answers whether \<open>t\<close> had been claimed
  before and leaves \<open>t\<close> claimed, in one atomic step, so that its negation is the
  spec's \<^verbatim>\<open>try_claim\<close>.
\<close>

definition is_task_claimed :: "subtask \<Rightarrow> phase_state \<Rightarrow> bool \<times> phase_state" where
  "is_task_claimed t s =
     (t \<in> process_strong_tasks s,
      emit (Claim_attempt t (t \<notin> process_strong_tasks s))
        (s\<lparr>process_strong_tasks := insert t (process_strong_tasks s)\<rparr>))"

text \<open>
  Modelled from the spec: the scoped timing record (section 4.5), whose class
  \<^verbatim>\<open>ShenandoahWorkerTimingsTracker\<close> is not among the sources. Construction reads
  the clock; release adds the time elapsed since then to the cell (phase, worker).
\<close>

definition ShenandoahWorkerTimingsTracker :: "phase \<Rightarrow> worker \<Rightarrow> phase_state \<Rightarrow> tracker \<times> phase_state" where
  "ShenandoahWorkerTimingsTracker ph w s =
     (\<lparr>tracker_phase = ph, tracker_worker = w, start_time = clock s\<rparr>,
      emit (Timing_start ph w) s)"

definition tracker_release :: "tracker \<Rightarrow> phase_state \<Rightarrow> phase_state" where
  "tracker_release t s =
     (let cell = (tracker_phase t, tracker_worker t);
          elapsed = clock s - start_time t
      in emit (Timing_write (tracker_phase t) (tracker_worker t) elapsed)
           (s\<lparr>worker_times := (worker_times s)(cell := worker_times s cell + elapsed)\<rparr>))"

text \<open>One invocation of a caller-owned closure on one root.\<close>

definition do_oop :: "heap_env \<Rightarrow> root_source \<Rightarrow> closure \<Rightarrow> oop \<Rightarrow> phase_state \<Rightarrow> phase_state" where
  "do_oop env src cl p s = emit (Visit src cl p) (s\<lparr>clock := clock s + visit_cost env p\<rparr>)"

text \<open>
  Modelled from the spec: the iteration both filtered tables perform (sections 4.4
  and 8, Liveness gating): each candidate is put to the liveness filter, and the
  object-reference visitor is invoked for the candidates it reports alive.
\<close>

fun oops_do_live :: "heap_env \<Rightarrow> liveness_filter \<Rightarrow> root_source \<Rightarrow> closure \<Rightarrow> oop list \<Rightarrow> phase_state \<Rightarrow> phase_state" where
  "oops_do_live env is_alive src cl [] s = s"
| "oops_do_live env is_alive src cl (p # ps) s =
     oops_do_live env is_alive src cl ps
       (if do_object_b is_alive p then do_oop env src cl p s else s)"

text \<open>
  Modelled from the spec: the single entry point of the weak-handle root table
  (section 6), \<^verbatim>\<open>WeakProcessor::weak_oops_do\<close>, declared in
  \<^verbatim>\<open>gc/shared/weakProcessor.hpp\<close>, which is not among the sources.
\<close>

definition weak_oops_do :: "heap_env \<Rightarrow> liveness_filter \<Rightarrow> closure \<Rightarrow> phase_state \<Rightarrow> phase_state" where
  "weak_oops_do env is_alive oops_cl s =
     oops_do_live env is_alive Weak_handle_table oops_cl (weak_table env)
       (emit (Weak_oops_do_call (instance_id is_alive) oops_cl) s)"

text \<open>
  Modelled from the spec: the worker-partitioned pass over the deduplication table
  (sections 4.3, step 4, and 6), \<^verbatim>\<open>ShenandoahStringDedup::parallel_oops_do\<close>,
  which is not among the sources. A worker iterates over its own partition; no claim
  is involved.
\<close>

definition parallel_oops_do :: "heap_env \<Rightarrow> liveness_filter \<Rightarrow> closure \<Rightarrow> worker \<Rightarrow> phase_state \<Rightarrow> phase_state" where
  "parallel_oops_do env is_alive oops_cl worker_id s =
     oops_do_live env is_alive Dedup_table oops_cl (dedup_partition env worker_id)
       (emit (Parallel_oops_do_call (instance_id is_alive) oops_cl worker_id) s)"

text \<open>
  Modelled from the spec: strong-root processing (section 4.2),
  \<^verbatim>\<open>ShenandoahRootProcessor::process_all_roots\<close>, defined in the implementation
  file of the class, which is not among the sources. Every strong subtask of the
  catalog is attempted once; a claimed subtask is timed and its category visited
  with the callback of the category; a lost claim has no effect.
\<close>

definition strong_catalog :: "subtask list" where
  "strong_catalog = [Class_metadata_roots, Code_roots, Thread_roots, Misc_strong_roots]"

fun phase_of :: "subtask \<Rightarrow> phase" where
  "phase_of SHENANDOAH_RP_PS_JNIHandles_weak_oops_do = JNIWeakRoots"
| "phase_of Class_metadata_roots = Class_metadata_phase"
| "phase_of Code_roots = Code_phase"
| "phase_of Thread_roots = Thread_phase"
| "phase_of Misc_strong_roots = Misc_strong_phase"

fun callback_of :: "subtask \<Rightarrow> closure \<Rightarrow> closure \<Rightarrow> closure \<Rightarrow> closure \<Rightarrow> closure" where
  "callback_of Class_metadata_roots oops_cl clds blobs thread_cl = clds"
| "callback_of Code_roots oops_cl clds blobs thread_cl = blobs"
| "callback_of Thread_roots oops_cl clds blobs thread_cl = thread_cl"
| "callback_of t oops_cl clds blobs thread_cl = oops_cl"

fun roots_do :: "heap_env \<Rightarrow> root_source \<Rightarrow> closure \<Rightarrow> oop list \<Rightarrow> phase_state \<Rightarrow> phase_state" where
  "roots_do env src cl [] s = s"
| "roots_do env src cl (p # ps) s = roots_do env src cl ps (do_oop env src cl p s)"

definition process_strong_subtask :: "heap_env \<Rightarrow> closure \<Rightarrow> closure \<Rightarrow> closure \<Rightarrow> closure \<Rightarrow> worker \<Rightarrow> subtask \<Rightarrow> phase_state \<Rightarrow> phase_state" where
  "process_strong_subtask env oops_cl clds blobs thread_cl worker_id t s =
     (case is_task_claimed t s of
        (already, s1) \<Rightarrow>
          if \<not> already then
            (case ShenandoahWorkerTimingsTracker (phase_of t) worker_id s1 of
               (timer, s2) \<Rightarrow>
                 tracker_release timer
                   (roots_do env (Strong_category t) (callback_of t oops_cl clds blobs thread_cl)
                      (strong_roots env t) s2))
          else s1)"

definition process_all_roots :: "heap_env \<Rightarrow> closure \<Rightarrow> closure \<Rightarrow> closure \<Rightarrow> closure \<Rightarrow> worker \<Rightarrow> phase_state \<Rightarrow> phase_state" where
  "process_all_roots env oops_cl clds blobs thread_cl worker_id s =
     fold (process_strong_subtask env oops_cl clds blobs thread_cl worker_id) strong_catalog
       (emit (Process_all_roots_call oops_cl clds blobs thread_cl worker_id) s)"

section \<open>The function of the source\<close>

text \<open>
  \<^verbatim>\<open>update_all_roots<IsAlive>\<close>, statement by statement. Its first parameter, the
  object-reference closure, is \<open>oops_cl\<close> here; the others keep their names. The
  timing tracker is a local of the block guarded by the claim, so it is released
  where that block ends, before \<^verbatim>\<open>process_all_roots\<close> is called.
\<close>

definition update_all_roots :: "heap_env \<Rightarrow> (oop \<Rightarrow> bool) \<Rightarrow> closure \<Rightarrow> closure \<Rightarrow> closure \<Rightarrow> closure \<Rightarrow> worker \<Rightarrow> phase_state \<Rightarrow> phase_state" where
  "update_all_roots env IsAlive oops_cl clds blobs thread_cl worker_id s =
     (case IsAlive_ctor IsAlive s of
        (is_alive, s1) \<Rightarrow>
          (case is_task_claimed SHENANDOAH_RP_PS_JNIHandles_weak_oops_do s1 of
             (already, s2) \<Rightarrow>
               let s3 =
                     (if \<not> already then
                        (case ShenandoahWorkerTimingsTracker JNIWeakRoots worker_id s2 of
                           (timer, s2') \<Rightarrow> tracker_release timer (weak_oops_do env is_alive oops_cl s2'))
                      else s2);
                   s4 = process_all_roots env oops_cl clds blobs thread_cl worker_id s3
               in if is_enabled env then parallel_oops_do env is_alive oops_cl worker_id s4 else s4))"

section \<open>Phases of several workers\<close>

text \<open>
  The arguments of one worker's call, and the calls of a phase run one after the
  other. (Interleaved calls are modelled further down.)
\<close>

record root_call =
  call_oops :: closure
  call_clds :: closure
  call_blobs :: closure
  call_thread_cl :: closure
  call_worker_id :: worker

definition phase_start :: phase_state where
  "phase_start =
     \<lparr>process_strong_tasks = {}, worker_times = (\<lambda>cell. 0), clock = 0, instances = 0, trace = []\<rparr>"

definition emitted :: "(phase_state \<Rightarrow> phase_state) \<Rightarrow> phase_state \<Rightarrow> event list" where
  "emitted f s = drop (length (trace s)) (trace (f s))"

definition worker_call :: "heap_env \<Rightarrow> (oop \<Rightarrow> bool) \<Rightarrow> root_call \<Rightarrow> phase_state \<Rightarrow> phase_state" where
  "worker_call env IsAlive c =
     update_all_roots env IsAlive (call_oops c) (call_clds c) (call_blobs c) (call_thread_cl c)
       (call_worker_id c)"

text \<open>The events of each call of a phase, call by call.\<close>

fun run_calls :: "heap_env \<Rightarrow> (oop \<Rightarrow> bool) \<Rightarrow> root_call list \<Rightarrow> phase_state \<Rightarrow> event list list" where
  "run_calls env IsAlive [] s = []"
| "run_calls env IsAlive (c # cs) s =
     emitted (worker_call env IsAlive c) s # run_calls env IsAlive cs (worker_call env IsAlive c s)"

section \<open>Observations on traces\<close>

definition live_visits :: "root_source \<Rightarrow> closure \<Rightarrow> (oop \<Rightarrow> bool) \<Rightarrow> oop list \<Rightarrow> event list" where
  "live_visits src cl P ps = map (Visit src cl) (filter P ps)"

definition live_cost :: "heap_env \<Rightarrow> (oop \<Rightarrow> bool) \<Rightarrow> oop list \<Rightarrow> nat" where
  "live_cost env P ps = sum_list (map (visit_cost env) (filter P ps))"

text \<open>
  The events of the strong subtasks \<open>ts\<close>, attempted in this order by worker \<open>w\<close>
  when the subtasks \<open>C\<close> are claimed already.
\<close>

fun strong_events :: "heap_env \<Rightarrow> closure \<Rightarrow> closure \<Rightarrow> closure \<Rightarrow> closure \<Rightarrow> worker \<Rightarrow> subtask set \<Rightarrow> subtask list \<Rightarrow> event list" where
  "strong_events env oops_cl clds blobs thread_cl w C [] = []"
| "strong_events env oops_cl clds blobs thread_cl w C (t # ts) =
     Claim_attempt t (t \<notin> C) #
     (if t \<notin> C then
        Timing_start (phase_of t) w #
        map (Visit (Strong_category t) (callback_of t oops_cl clds blobs thread_cl)) (strong_roots env t) @
        [Timing_write (phase_of t) w (sum_list (map (visit_cost env) (strong_roots env t)))]
      else []) @
     strong_events env oops_cl clds blobs thread_cl w (insert t C) ts"

text \<open>The state in which \<^verbatim>\<open>update_all_roots\<close> calls \<^verbatim>\<open>process_all_roots\<close>.\<close>

definition after_weak_roots :: "heap_env \<Rightarrow> (oop \<Rightarrow> bool) \<Rightarrow> closure \<Rightarrow> worker \<Rightarrow> phase_state \<Rightarrow> phase_state" where
  "after_weak_roots env IsAlive oops_cl w s =
     (if SHENANDOAH_RP_PS_JNIHandles_weak_oops_do \<in> process_strong_tasks s
      then s\<lparr>instances := Suc (instances s),
             trace := trace s @ [IsAlive_new (instances s),
               Claim_attempt SHENANDOAH_RP_PS_JNIHandles_weak_oops_do False]\<rparr>
      else s\<lparr>instances := Suc (instances s),
             process_strong_tasks := insert SHENANDOAH_RP_PS_JNIHandles_weak_oops_do (process_strong_tasks s),
             clock := clock s + live_cost env IsAlive (weak_table env),
             worker_times := (worker_times s)((JNIWeakRoots, w) :=
               worker_times s (JNIWeakRoots, w) + live_cost env IsAlive (weak_table env)),
             trace := trace s @
               [IsAlive_new (instances s),
                Claim_attempt SHENANDOAH_RP_PS_JNIHandles_weak_oops_do True,
                Timing_start JNIWeakRoots w,
                Weak_oops_do_call (instances s) oops_cl] @
               live_visits Weak_handle_table oops_cl IsAlive (weak_table env) @
               [Timing_write JNIWeakRoots w (live_cost env IsAlive (weak_table env))]\<rparr>)"

text \<open>Classes of events.\<close>

fun constructed :: "event \<Rightarrow> bool" where
  "constructed (IsAlive_new k) = True"
| "constructed e = False"

fun claim_attempt :: "event \<Rightarrow> bool" where
  "claim_attempt (Claim_attempt t ok) = True"
| "claim_attempt e = False"

fun weak_claim_attempt :: "event \<Rightarrow> bool" where
  "weak_claim_attempt (Claim_attempt t ok) = (t = SHENANDOAH_RP_PS_JNIHandles_weak_oops_do)"
| "weak_claim_attempt e = False"

fun weak_visitor_call :: "event \<Rightarrow> bool" where
  "weak_visitor_call (Weak_oops_do_call k cl) = True"
| "weak_visitor_call e = False"

fun weak_visit :: "event \<Rightarrow> bool" where
  "weak_visit (Weak_oops_do_call k cl) = True"
| "weak_visit (Visit src cl p) = (src = Weak_handle_table)"
| "weak_visit e = False"

fun weak_timing :: "event \<Rightarrow> bool" where
  "weak_timing (Timing_start ph w) = (ph = JNIWeakRoots)"
| "weak_timing (Timing_write ph w d) = (ph = JNIWeakRoots)"
| "weak_timing e = False"

fun timing_event :: "event \<Rightarrow> bool" where
  "timing_event (Timing_start ph w) = True"
| "timing_event (Timing_write ph w d) = True"
| "timing_event e = False"

fun visit_event :: "event \<Rightarrow> bool" where
  "visit_event (Visit src cl p) = True"
| "visit_event e = False"

fun strong_call :: "event \<Rightarrow> bool" where
  "strong_call (Process_all_roots_call oops_cl clds blobs thread_cl w) = True"
| "strong_call e = False"

fun dedup_call :: "event \<Rightarrow> bool" where
  "dedup_call (Parallel_oops_do_call k cl w) = True"
| "dedup_call e = False"

fun dedup_event :: "event \<Rightarrow> bool" where
  "dedup_event (Parallel_oops_do_call k cl w) = True"
| "dedup_event (Visit src cl p) = (src = Dedup_table)"
| "dedup_event e = False"

text \<open>How often a trace enters the weak-handle visitor, and the deduplication pass.\<close>

definition weak_invocations :: "event list \<Rightarrow> nat" where
  "weak_invocations evs = length (filter weak_visitor_call evs)"

definition dedup_invocations :: "event list \<Rightarrow> nat" where
  "dedup_invocations evs = length (filter dedup_call evs)"

text \<open>The liveness-filter instances handed to the two filtered visitors, in order.\<close>

fun filters_passed :: "event list \<Rightarrow> nat list" where
  "filters_passed [] = []"
| "filters_passed (Weak_oops_do_call k cl # evs) = k # filters_passed evs"
| "filters_passed (Parallel_oops_do_call k cl w # evs) = k # filters_passed evs"
| "filters_passed (e # evs) = filters_passed evs"

fun instances_made :: "event list \<Rightarrow> nat list" where
  "instances_made [] = []"
| "instances_made (IsAlive_new k # evs) = k # instances_made evs"
| "instances_made (e # evs) = instances_made evs"

text \<open>An event without the worker it is attributed to.\<close>

fun forget_worker :: "event \<Rightarrow> event" where
  "forget_worker (Timing_start ph w) = Timing_start ph 0"
| "forget_worker (Timing_write ph w d) = Timing_write ph 0 d"
| "forget_worker (Process_all_roots_call oops_cl clds blobs thread_cl w) =
     Process_all_roots_call oops_cl clds blobs thread_cl 0"
| "forget_worker (Parallel_oops_do_call k cl w) = Parallel_oops_do_call k cl 0"
| "forget_worker e = e"

text \<open>
  Strong-root processing followed by the deduplication pass, with no weak-root step:
  the liveness filter is constructed, \<^verbatim>\<open>process_all_roots\<close> is called with the same
  arguments, and the deduplication pass follows when deduplication is enabled.
\<close>

definition strong_roots_then_dedup :: "heap_env \<Rightarrow> (oop \<Rightarrow> bool) \<Rightarrow> closure \<Rightarrow> closure \<Rightarrow> closure \<Rightarrow> closure \<Rightarrow> worker \<Rightarrow> phase_state \<Rightarrow> phase_state" where
  "strong_roots_then_dedup env IsAlive oops_cl clds blobs thread_cl worker_id s =
     (case IsAlive_ctor IsAlive s of
        (is_alive, s1) \<Rightarrow>
          let s2 = process_all_roots env oops_cl clds blobs thread_cl worker_id s1
          in if is_enabled env then parallel_oops_do env is_alive oops_cl worker_id s2 else s2)"

text \<open>
  What is observable of a state: everything but the claim attempts on the weak-handle
  subtask, whose only effect is the claim flag.
\<close>

definition observe :: "phase_state \<Rightarrow> phase_state" where
  "observe s = s\<lparr>trace := filter (\<lambda>e. \<not> weak_claim_attempt e) (trace s)\<rparr>"

section \<open>Interleaved workers\<close>

text \<open>
  The workers of a phase run in parallel. A call of \<^verbatim>\<open>update_all_roots\<close> is cut
  at its statements: a worker is at one of the points below, with the locals it has
  by then, and one step runs one statement on the shared state. The claim attempt is
  one step, as the claim primitive is atomic; \<^verbatim>\<open>process_all_roots\<close> is one step,
  since no claim of this theory depends on how its own attempts interleave.
\<close>

datatype worker_point =
    At_entry
  | At_claim liveness_filter
  | At_timer liveness_filter
  | At_weak_oops_do liveness_filter tracker
  | At_block_end liveness_filter tracker
  | At_process_all_roots liveness_filter
  | At_dedup liveness_filter
  | Returned

text \<open>One statement of the call \<open>c\<close>, from the point the worker is at.\<close>

fun worker_step :: "heap_env \<Rightarrow> (oop \<Rightarrow> bool) \<Rightarrow> root_call \<Rightarrow> worker_point \<Rightarrow> phase_state \<Rightarrow> worker_point \<times> phase_state" where
  "worker_step env IsAlive c At_entry s =
     (case IsAlive_ctor IsAlive s of (is_alive, s') \<Rightarrow> (At_claim is_alive, s'))"
| "worker_step env IsAlive c (At_claim is_alive) s =
     (case is_task_claimed SHENANDOAH_RP_PS_JNIHandles_weak_oops_do s of
        (already, s') \<Rightarrow> (if \<not> already then At_timer is_alive else At_process_all_roots is_alive, s'))"
| "worker_step env IsAlive c (At_timer is_alive) s =
     (case ShenandoahWorkerTimingsTracker JNIWeakRoots (call_worker_id c) s of
        (timer, s') \<Rightarrow> (At_weak_oops_do is_alive timer, s'))"
| "worker_step env IsAlive c (At_weak_oops_do is_alive timer) s =
     (At_block_end is_alive timer, weak_oops_do env is_alive (call_oops c) s)"
| "worker_step env IsAlive c (At_block_end is_alive timer) s =
     (At_process_all_roots is_alive, tracker_release timer s)"
| "worker_step env IsAlive c (At_process_all_roots is_alive) s =
     (At_dedup is_alive,
      process_all_roots env (call_oops c) (call_clds c) (call_blobs c) (call_thread_cl c)
        (call_worker_id c) s)"
| "worker_step env IsAlive c (At_dedup is_alive) s =
     (Returned,
      if is_enabled env then parallel_oops_do env is_alive (call_oops c) (call_worker_id c) s else s)"
| "worker_step env IsAlive c Returned s = (Returned, s)"

text \<open>
  Several steps of one worker in a row. Seven of them, from the entry and with no
  other worker in between, are one call of \<^verbatim>\<open>update_all_roots\<close>.
\<close>

fun worker_steps :: "heap_env \<Rightarrow> (oop \<Rightarrow> bool) \<Rightarrow> root_call \<Rightarrow> nat \<Rightarrow> worker_point \<Rightarrow> phase_state \<Rightarrow> worker_point \<times> phase_state" where
  "worker_steps env IsAlive c 0 p s = (p, s)"
| "worker_steps env IsAlive c (Suc n) p s =
     (case worker_step env IsAlive c p s of (p', s') \<Rightarrow> worker_steps env IsAlive c n p' s')"

text \<open>
  The shared state and the point of every worker. A schedule is the list of the
  workers that take the next step, one after the other; any interleaving of the
  calls is a schedule.
\<close>

record config =
  shared :: phase_state
  points :: "worker_point list"

definition start_config :: "root_call list \<Rightarrow> phase_state \<Rightarrow> config" where
  "start_config calls s = \<lparr>shared = s, points = replicate (length calls) At_entry\<rparr>"

definition schedule_step :: "heap_env \<Rightarrow> (oop \<Rightarrow> bool) \<Rightarrow> root_call list \<Rightarrow> nat \<Rightarrow> config \<Rightarrow> config" where
  "schedule_step env IsAlive calls i cfg =
     (if i < length calls \<and> i < length (points cfg) then
        (case worker_step env IsAlive (calls ! i) (points cfg ! i) (shared cfg) of
           (p', s') \<Rightarrow> \<lparr>shared = s', points = (points cfg)[i := p']\<rparr>)
      else cfg)"

definition run_schedule :: "heap_env \<Rightarrow> (oop \<Rightarrow> bool) \<Rightarrow> root_call list \<Rightarrow> nat list \<Rightarrow> config \<Rightarrow> config" where
  "run_schedule env IsAlive calls sched cfg = fold (schedule_step env IsAlive calls) sched cfg"

definition new_events :: "phase_state \<Rightarrow> config \<Rightarrow> event list" where
  "new_events s cfg = drop (length (trace s)) (trace (shared cfg))"

text \<open>
  A worker holds the claim of the weak-handle subtask from its successful attempt
  until it enters the visitor. At every moment the entries into the visitor and the
  workers that hold the claim are one in all if the subtask is claimed, and none if
  it is not; and as long as it is not claimed, no worker is past its claim attempt.
\<close>

fun holds_weak_claim :: "worker_point \<Rightarrow> bool" where
  "holds_weak_claim (At_timer is_alive) = True"
| "holds_weak_claim (At_weak_oops_do is_alive timer) = True"
| "holds_weak_claim p = False"

fun before_claim :: "worker_point \<Rightarrow> bool" where
  "before_claim At_entry = True"
| "before_claim (At_claim is_alive) = True"
| "before_claim p = False"

definition weak_claim_inv :: "nat \<Rightarrow> config \<Rightarrow> bool" where
  "weak_claim_inv n cfg =
     (n \<le> length (trace (shared cfg))
      \<and> weak_invocations (drop n (trace (shared cfg))) + length (filter holds_weak_claim (points cfg)) =
          (if SHENANDOAH_RP_PS_JNIHandles_weak_oops_do \<in> process_strong_tasks (shared cfg) then 1 else 0)
      \<and> (SHENANDOAH_RP_PS_JNIHandles_weak_oops_do \<in> process_strong_tasks (shared cfg)
          \<or> list_all before_claim (points cfg)))"

section \<open>Sample inputs\<close>

definition alive_but_two :: "oop \<Rightarrow> bool" where
  "alive_but_two p = (p \<noteq> 2)"

definition sample_env :: heap_env where
  "sample_env =
     \<lparr>is_enabled = True, weak_table = [1, 2, 3], strong_roots = (\<lambda>t. [10]),
      dedup_partition = (\<lambda>w. [20 + w, 2]), visit_cost = (\<lambda>p. p)\<rparr>"

definition sample_env_no_dedup :: heap_env where
  "sample_env_no_dedup = sample_env\<lparr>is_enabled := False\<rparr>"

definition sample_call :: "worker \<Rightarrow> root_call" where
  "sample_call w =
     \<lparr>call_oops = 100, call_clds = 101, call_blobs = 102, call_thread_cl = 103, call_worker_id = w\<rparr>"

definition weak_claimed :: phase_state where
  "weak_claimed = phase_start\<lparr>process_strong_tasks := {SHENANDOAH_RP_PS_JNIHandles_weak_oops_do}\<rparr>"

definition every_claim_lost :: phase_state where
  "every_claim_lost =
     phase_start\<lparr>process_strong_tasks :=
       {SHENANDOAH_RP_PS_JNIHandles_weak_oops_do, Class_metadata_roots, Code_roots, Thread_roots,
        Misc_strong_roots}\<rparr>"

section \<open>The effect of each operation\<close>

lemma oops_do_live_eq:
  "oops_do_live env f src cl ps s =
     s\<lparr>clock := clock s + live_cost env (do_object_b f) ps,
       trace := trace s @ live_visits src cl (do_object_b f) ps\<rparr>"
  by (induction ps arbitrary: s) (simp_all add: live_cost_def live_visits_def do_oop_def emit_def)

lemma roots_do_eq:
  "roots_do env src cl ps s =
     s\<lparr>clock := clock s + sum_list (map (visit_cost env) ps),
       trace := trace s @ map (Visit src cl) ps\<rparr>"
  by (induction ps arbitrary: s) (simp_all add: do_oop_def emit_def)

lemma process_strong_subtask_eq:
  "process_strong_subtask env oops_cl clds blobs thread_cl w t s =
     (if t \<in> process_strong_tasks s
      then s\<lparr>trace := trace s @ [Claim_attempt t False]\<rparr>
      else s\<lparr>process_strong_tasks := insert t (process_strong_tasks s),
             worker_times := (worker_times s)((phase_of t, w) :=
                worker_times s (phase_of t, w) + sum_list (map (visit_cost env) (strong_roots env t))),
             clock := clock s + sum_list (map (visit_cost env) (strong_roots env t)),
             trace := trace s @ strong_events env oops_cl clds blobs thread_cl w (process_strong_tasks s) [t]\<rparr>)"
  by (simp add: process_strong_subtask_def is_task_claimed_def ShenandoahWorkerTimingsTracker_def
      tracker_release_def roots_do_eq emit_def insert_absorb Let_def)


lemma phase_of_weak [simp]: "(phase_of t = JNIWeakRoots) = (t = SHENANDOAH_RP_PS_JNIHandles_weak_oops_do)"
  by (cases t) simp_all

lemma phase_of_weak' [simp]: "(JNIWeakRoots = phase_of t) = (t = SHENANDOAH_RP_PS_JNIHandles_weak_oops_do)"
  by (cases t) simp_all

lemma weak_not_strong: "SHENANDOAH_RP_PS_JNIHandles_weak_oops_do \<notin> set strong_catalog"
  by (simp add: strong_catalog_def)

lemma fold_strong_claimed:
  "process_strong_tasks (fold (process_strong_subtask env oops_cl clds blobs thread_cl w) ts s) =
     process_strong_tasks s \<union> set ts"
  by (induction ts arbitrary: s) (auto simp add: process_strong_subtask_eq)

lemma fold_strong_instances:
  "instances (fold (process_strong_subtask env oops_cl clds blobs thread_cl w) ts s) = instances s"
  by (induction ts arbitrary: s) (simp_all add: process_strong_subtask_eq)

lemma fold_strong_trace:
  "trace (fold (process_strong_subtask env oops_cl clds blobs thread_cl w) ts s) =
     trace s @ strong_events env oops_cl clds blobs thread_cl w (process_strong_tasks s) ts"
  by (induction ts arbitrary: s) (simp_all add: process_strong_subtask_eq insert_absorb)

lemma fold_strong_weak_cell:
  "SHENANDOAH_RP_PS_JNIHandles_weak_oops_do \<notin> set ts \<Longrightarrow>
   worker_times (fold (process_strong_subtask env oops_cl clds blobs thread_cl w) ts s) (JNIWeakRoots, w') =
     worker_times s (JNIWeakRoots, w')"
  by (induction ts arbitrary: s) (auto simp add: process_strong_subtask_eq)

lemma fold_strong_all_claimed:
  "set ts \<subseteq> process_strong_tasks s \<Longrightarrow>
   fold (process_strong_subtask env oops_cl clds blobs thread_cl w) ts s =
     s\<lparr>trace := trace s @ map (\<lambda>t. Claim_attempt t False) ts\<rparr>"
  by (induction ts arbitrary: s) (simp_all add: process_strong_subtask_eq)

lemma par_claimed:
  "process_strong_tasks (process_all_roots env oops_cl clds blobs thread_cl w s) =
     process_strong_tasks s \<union> set strong_catalog"
  by (simp add: process_all_roots_def fold_strong_claimed emit_def)

lemma par_instances:
  "instances (process_all_roots env oops_cl clds blobs thread_cl w s) = instances s"
  by (simp add: process_all_roots_def fold_strong_instances emit_def)

lemma par_trace:
  "trace (process_all_roots env oops_cl clds blobs thread_cl w s) =
     trace s @ Process_all_roots_call oops_cl clds blobs thread_cl w #
       strong_events env oops_cl clds blobs thread_cl w (process_strong_tasks s) strong_catalog"
  by (simp add: process_all_roots_def fold_strong_trace emit_def)

lemma par_weak_cell:
  "worker_times (process_all_roots env oops_cl clds blobs thread_cl w s) (JNIWeakRoots, w') =
     worker_times s (JNIWeakRoots, w')"
  by (simp add: process_all_roots_def fold_strong_weak_cell [OF weak_not_strong] emit_def)

lemma par_all_claimed:
  "set strong_catalog \<subseteq> process_strong_tasks s \<Longrightarrow>
   process_all_roots env oops_cl clds blobs thread_cl w s =
     s\<lparr>trace := trace s @ Process_all_roots_call oops_cl clds blobs thread_cl w #
          map (\<lambda>t. Claim_attempt t False) strong_catalog\<rparr>"
  by (simp add: process_all_roots_def fold_strong_all_claimed emit_def)

lemma update_all_roots_eq:
  "update_all_roots env IsAlive oops_cl clds blobs thread_cl w s =
     (let s4 = process_all_roots env oops_cl clds blobs thread_cl w (after_weak_roots env IsAlive oops_cl w s)
      in if is_enabled env
         then parallel_oops_do env \<lparr>instance_id = instances s, do_object_b = IsAlive\<rparr> oops_cl w s4
         else s4)"
  by (simp add: update_all_roots_def IsAlive_ctor_def is_task_claimed_def
      ShenandoahWorkerTimingsTracker_def tracker_release_def weak_oops_do_def oops_do_live_eq
      emit_def after_weak_roots_def Let_def insert_absorb)

lemma parallel_oops_do_eq:
  "parallel_oops_do env f oops_cl w s =
     s\<lparr>clock := clock s + live_cost env (do_object_b f) (dedup_partition env w),
       trace := trace s @ Parallel_oops_do_call (instance_id f) oops_cl w #
         live_visits Dedup_table oops_cl (do_object_b f) (dedup_partition env w)\<rparr>"
  by (simp add: parallel_oops_do_def oops_do_live_eq emit_def)

lemma update_all_roots_trace:
  "trace (update_all_roots env IsAlive oops_cl clds blobs thread_cl w s) =
     trace s @
     [IsAlive_new (instances s),
      Claim_attempt SHENANDOAH_RP_PS_JNIHandles_weak_oops_do
        (SHENANDOAH_RP_PS_JNIHandles_weak_oops_do \<notin> process_strong_tasks s)] @
     (if SHENANDOAH_RP_PS_JNIHandles_weak_oops_do \<notin> process_strong_tasks s
      then Timing_start JNIWeakRoots w #
           Weak_oops_do_call (instances s) oops_cl #
           live_visits Weak_handle_table oops_cl IsAlive (weak_table env) @
           [Timing_write JNIWeakRoots w (live_cost env IsAlive (weak_table env))]
      else []) @
     Process_all_roots_call oops_cl clds blobs thread_cl w #
     strong_events env oops_cl clds blobs thread_cl w
       (insert SHENANDOAH_RP_PS_JNIHandles_weak_oops_do (process_strong_tasks s)) strong_catalog @
     (if is_enabled env
      then Parallel_oops_do_call (instances s) oops_cl w #
           live_visits Dedup_table oops_cl IsAlive (dedup_partition env w)
      else [])"
  by (simp add: update_all_roots_eq parallel_oops_do_eq par_trace after_weak_roots_def Let_def insert_absorb)

section \<open>Facts about traces\<close>

lemma emitted_update_all_roots:
  "emitted (update_all_roots env IsAlive oops_cl clds blobs thread_cl w) s =
     [IsAlive_new (instances s),
      Claim_attempt SHENANDOAH_RP_PS_JNIHandles_weak_oops_do
        (SHENANDOAH_RP_PS_JNIHandles_weak_oops_do \<notin> process_strong_tasks s)] @
     (if SHENANDOAH_RP_PS_JNIHandles_weak_oops_do \<notin> process_strong_tasks s
      then Timing_start JNIWeakRoots w #
           Weak_oops_do_call (instances s) oops_cl #
           live_visits Weak_handle_table oops_cl IsAlive (weak_table env) @
           [Timing_write JNIWeakRoots w (live_cost env IsAlive (weak_table env))]
      else []) @
     Process_all_roots_call oops_cl clds blobs thread_cl w #
     strong_events env oops_cl clds blobs thread_cl w
       (insert SHENANDOAH_RP_PS_JNIHandles_weak_oops_do (process_strong_tasks s)) strong_catalog @
     (if is_enabled env
      then Parallel_oops_do_call (instances s) oops_cl w #
           live_visits Dedup_table oops_cl IsAlive (dedup_partition env w)
      else [])"
  unfolding emitted_def update_all_roots_trace by simp

lemma emitted_process_all_roots:
  "emitted (process_all_roots env oops_cl clds blobs thread_cl w) s =
     Process_all_roots_call oops_cl clds blobs thread_cl w #
     strong_events env oops_cl clds blobs thread_cl w (process_strong_tasks s) strong_catalog"
  unfolding emitted_def par_trace by simp

lemma strong_events_no_weak_visit:
  "filter weak_visit (strong_events env oops_cl clds blobs thread_cl w C ts) = []"
  by (induction ts arbitrary: C) simp_all

lemma strong_events_no_weak_timing:
  "SHENANDOAH_RP_PS_JNIHandles_weak_oops_do \<notin> set ts \<Longrightarrow>
   filter weak_timing (strong_events env oops_cl clds blobs thread_cl w C ts) = []"
  by (induction ts arbitrary: C) auto

lemma strong_events_no_weak_claim:
  "SHENANDOAH_RP_PS_JNIHandles_weak_oops_do \<notin> set ts \<Longrightarrow>
   filter weak_claim_attempt (strong_events env oops_cl clds blobs thread_cl w C ts) = []"
  by (induction ts arbitrary: C) auto

lemma strong_events_no_dedup:
  "filter dedup_event (strong_events env oops_cl clds blobs thread_cl w C ts) = []"
  by (induction ts arbitrary: C) simp_all

lemma strong_events_no_dedup_call:
  "filter dedup_call (strong_events env oops_cl clds blobs thread_cl w C ts) = []"
  by (induction ts arbitrary: C) simp_all

lemma strong_events_no_strong_call:
  "filter strong_call (strong_events env oops_cl clds blobs thread_cl w C ts) = []"
  by (induction ts arbitrary: C) simp_all

lemma strong_events_no_weak_call:
  "filter weak_visitor_call (strong_events env oops_cl clds blobs thread_cl w C ts) = []"
  by (induction ts arbitrary: C) simp_all

lemma strong_events_all_claimed:
  "set ts \<subseteq> C \<Longrightarrow>
   strong_events env oops_cl clds blobs thread_cl w C ts = map (\<lambda>t. Claim_attempt t False) ts"
  by (induction ts arbitrary: C) (auto simp add: insert_absorb)

lemma strong_events_forget_worker:
  "map forget_worker (strong_events env oops_cl clds blobs thread_cl w1 C ts) =
   map forget_worker (strong_events env oops_cl clds blobs thread_cl w2 C ts)"
  by (induction ts arbitrary: C) simp_all

lemma filters_passed_append: "filters_passed (xs @ ys) = filters_passed xs @ filters_passed ys"
  by (induction xs rule: filters_passed.induct) simp_all

lemma instances_made_append: "instances_made (xs @ ys) = instances_made xs @ instances_made ys"
  by (induction xs rule: instances_made.induct) simp_all

lemma filters_passed_visits [simp]: "filters_passed (live_visits src cl P ps) = []"
  by (induction ps) (simp_all add: live_visits_def)

lemma instances_made_visits [simp]: "instances_made (live_visits src cl P ps) = []"
  by (induction ps) (simp_all add: live_visits_def)

lemma filters_passed_strong [simp]:
  "filters_passed (strong_events env oops_cl clds blobs thread_cl w C ts) = []"
proof (induction ts arbitrary: C)
  case Nil
  show ?case by simp
next
  case (Cons t ts)
  have visits: "filters_passed (map (Visit src cl) ps @ evs) = filters_passed evs" for src cl ps evs
    by (induction ps) simp_all
  show ?case by (simp add: Cons.IH visits)
qed

lemma instances_made_strong [simp]:
  "instances_made (strong_events env oops_cl clds blobs thread_cl w C ts) = []"
proof (induction ts arbitrary: C)
  case Nil
  show ?case by simp
next
  case (Cons t ts)
  have visits: "instances_made (map (Visit src cl) ps @ evs) = instances_made evs" for src cl ps evs
    by (induction ps) simp_all
  show ?case by (simp add: Cons.IH visits)
qed

lemma filter_live_visits [simp]:
  "filter weak_visit (live_visits src cl P ps) = (if src = Weak_handle_table then live_visits src cl P ps else [])"
  "filter dedup_event (live_visits src cl P ps) = (if src = Dedup_table then live_visits src cl P ps else [])"
  "filter visit_event (live_visits src cl P ps) = live_visits src cl P ps"
  "filter weak_timing (live_visits src cl P ps) = []"
  "filter timing_event (live_visits src cl P ps) = []"
  "filter weak_visitor_call (live_visits src cl P ps) = []"
  "filter dedup_call (live_visits src cl P ps) = []"
  "filter strong_call (live_visits src cl P ps) = []"
  "filter claim_attempt (live_visits src cl P ps) = []"
  "filter weak_claim_attempt (live_visits src cl P ps) = []"
  by (induction ps) (simp_all add: live_visits_def)

lemma weak_claimed_after:
  "SHENANDOAH_RP_PS_JNIHandles_weak_oops_do \<in>
     process_strong_tasks (update_all_roots env IsAlive oops_cl clds blobs thread_cl w s)"
  by (simp add: update_all_roots_eq parallel_oops_do_eq par_claimed after_weak_roots_def Let_def)

lemma weak_invocations_call:
  "weak_invocations (emitted (update_all_roots env IsAlive oops_cl clds blobs thread_cl w) s) =
     (if SHENANDOAH_RP_PS_JNIHandles_weak_oops_do \<in> process_strong_tasks s then 0 else 1)"
  by (simp add: weak_invocations_def emitted_update_all_roots strong_events_no_weak_call)

lemma run_calls_weak_lost:
  "SHENANDOAH_RP_PS_JNIHandles_weak_oops_do \<in> process_strong_tasks s \<Longrightarrow>
   map weak_invocations (run_calls env IsAlive cs s) = replicate (length cs) 0"
proof (induction cs arbitrary: s)
  case Nil
  show ?case by simp
next
  case (Cons c cs)
  have "SHENANDOAH_RP_PS_JNIHandles_weak_oops_do \<in> process_strong_tasks (worker_call env IsAlive c s)"
    by (simp add: worker_call_def weak_claimed_after)
  then have "map weak_invocations (run_calls env IsAlive cs (worker_call env IsAlive c s)) =
      replicate (length cs) 0"
    by (rule Cons.IH)
  with Cons.prems show ?case
    by (simp add: worker_call_def weak_invocations_call)
qed

lemma dedup_invocations_call:
  "dedup_invocations (emitted (update_all_roots env IsAlive oops_cl clds blobs thread_cl w) s) =
     (if is_enabled env then 1 else 0)"
  by (simp add: dedup_invocations_def emitted_update_all_roots strong_events_no_dedup_call)

lemma run_calls_dedup:
  "map dedup_invocations (run_calls env IsAlive cs s) =
     replicate (length cs) (if is_enabled env then 1 else 0)"
  by (induction cs arbitrary: s) (simp_all add: worker_call_def dedup_invocations_call)

lemma instances_made_call:
  "instances_made (emitted (update_all_roots env IsAlive oops_cl clds blobs thread_cl w) s) = [instances s]"
  by (simp add: emitted_update_all_roots instances_made_append)

lemma instances_after:
  "instances (update_all_roots env IsAlive oops_cl clds blobs thread_cl w s) = Suc (instances s)"
  by (simp add: update_all_roots_eq parallel_oops_do_eq par_instances after_weak_roots_def Let_def)

lemma strong_events_lost:
  "set ts \<subseteq> C \<Longrightarrow> filter visit_event (strong_events env oops_cl clds blobs thread_cl w C ts) = []"
  "set ts \<subseteq> C \<Longrightarrow> filter timing_event (strong_events env oops_cl clds blobs thread_cl w C ts) = []"
  by (simp_all add: strong_events_all_claimed filter_map comp_def)

lemma filters_passed_call:
  "filters_passed (emitted (update_all_roots env IsAlive oops_cl clds blobs thread_cl w) s) =
     (if SHENANDOAH_RP_PS_JNIHandles_weak_oops_do \<notin> process_strong_tasks s then [instances s] else []) @
     (if is_enabled env then [instances s] else [])"
  by (simp add: emitted_update_all_roots filters_passed_append)

lemma run_calls_instances:
  "map instances_made (run_calls env IsAlive cs s) =
     map (\<lambda>k. [k]) [instances s ..< instances s + length cs]"
proof (induction cs arbitrary: s)
  case Nil
  show ?case by simp
next
  case (Cons c cs)
  have "map instances_made (run_calls env IsAlive cs (worker_call env IsAlive c s)) =
      map (\<lambda>k. [k]) [Suc (instances s) ..< Suc (instances s) + length cs]"
    using Cons.IH [of "worker_call env IsAlive c s"]
    by (simp add: worker_call_def instances_after)
  moreover have "[instances s ..< instances s + length (c # cs)] =
      instances s # [Suc (instances s) ..< Suc (instances s) + length cs]"
    by (simp add: upt_conv_Cons del: upt_Suc)
  ultimately show ?case
    by (simp add: worker_call_def instances_made_call del: upt_Suc)
qed

lemma forget_live_visits [simp]:
  "map forget_worker (live_visits src cl P ps) = live_visits src cl P ps"
  by (induction ps) (simp_all add: live_visits_def)

lemma strong_events_claims:
  "filter claim_attempt (strong_events env oops_cl clds blobs thread_cl w C ts) =
     filter claim_attempt (strong_events env oops_cl clds blobs thread_cl w' C ts)"
  by (induction ts arbitrary: C) simp_all

lemma strong_events_sources:
  "Visit src cl p \<in> set (strong_events env oops_cl clds blobs thread_cl w C ts) \<Longrightarrow>
   src \<noteq> Weak_handle_table \<and> src \<noteq> Dedup_table"
  by (induction ts arbitrary: C) (auto split: if_splits)

lemma live_visits_alive:
  "Visit src cl p \<in> set (live_visits src' cl' P ps) \<Longrightarrow> P p"
  by (auto simp add: live_visits_def)

lemma takeWhile_live_visits:
  "takeWhile (\<lambda>e. \<not> strong_call e) (live_visits src cl P ps @ evs) =
     live_visits src cl P ps @ takeWhile (\<lambda>e. \<not> strong_call e) evs"
  by (induction ps) (simp_all add: live_visits_def)

lemma fold_strong_trace_frame:
  "fold (process_strong_subtask env oops_cl clds blobs thread_cl w) ts (s\<lparr>trace := tr\<rparr>) =
     (fold (process_strong_subtask env oops_cl clds blobs thread_cl w) ts s)
       \<lparr>trace := tr @ strong_events env oops_cl clds blobs thread_cl w (process_strong_tasks s) ts\<rparr>"
proof (induction ts arbitrary: s tr)
  case Nil
  show ?case by simp
next
  case (Cons t ts)
  show ?case
  proof (cases "t \<in> process_strong_tasks s")
    case True
    then show ?thesis
      using Cons.IH [where s = s and tr = "tr @ [Claim_attempt t False]"]
        Cons.IH [where s = s and tr = "trace s @ [Claim_attempt t False]"]
      by (simp add: process_strong_subtask_eq insert_absorb)
  next
    case False
    let ?d = "sum_list (map (visit_cost env) (strong_roots env t))"
    let ?s' = "s\<lparr>process_strong_tasks := insert t (process_strong_tasks s),
             worker_times := (worker_times s)((phase_of t, w) := worker_times s (phase_of t, w) + ?d),
             clock := clock s + ?d\<rparr>"
    from False show ?thesis
      using Cons.IH [where s = ?s' and tr = "tr @ strong_events env oops_cl clds blobs thread_cl w (process_strong_tasks s) [t]"]
        Cons.IH [where s = ?s' and tr = "trace s @ strong_events env oops_cl clds blobs thread_cl w (process_strong_tasks s) [t]"]
      by (simp add: process_strong_subtask_eq)
  qed
qed

lemma par_trace_frame:
  "process_all_roots env oops_cl clds blobs thread_cl w (s\<lparr>trace := tr\<rparr>) =
     (process_all_roots env oops_cl clds blobs thread_cl w s)
       \<lparr>trace := tr @ emitted (process_all_roots env oops_cl clds blobs thread_cl w) s\<rparr>"
  using fold_strong_trace_frame [where ts = strong_catalog and s = s
      and tr = "tr @ [Process_all_roots_call oops_cl clds blobs thread_cl w]"
      and env = env and oops_cl = oops_cl and clds = clds and blobs = blobs and thread_cl = thread_cl and w = w]
    fold_strong_trace_frame [where ts = strong_catalog and s = s
      and tr = "trace s @ [Process_all_roots_call oops_cl clds blobs thread_cl w]"
      and env = env and oops_cl = oops_cl and clds = clds and blobs = blobs and thread_cl = thread_cl and w = w]
  by (simp add: process_all_roots_def emit_def emitted_process_all_roots)

section \<open>Facts about interleaved workers\<close>

lemma worker_steps_call:
  "worker_steps env IsAlive c 7 At_entry s = (Returned, worker_call env IsAlive c s)"
  by (simp add: eval_nat_numeral worker_call_def update_all_roots_def Let_def split: prod.splits)

lemma filter_update_count:
  "i < length ps \<Longrightarrow>
   length (filter P (ps[i := q])) + (if P (ps ! i) then 1 else 0) =
     length (filter P ps) + (if P q then 1 else 0)"
proof (induction ps arbitrary: i)
  case Nil
  then show ?case by simp
next
  case (Cons p ps)
  show ?case
  proof (cases i)
    case 0
    then show ?thesis by simp
  next
    case (Suc j)
    with Cons.prems have "j < length ps" by simp
    from Cons.IH [OF this] Suc show ?thesis by simp
  qed
qed

lemma list_all_update:
  "list_all P ps \<Longrightarrow> P q \<Longrightarrow> list_all P (ps[i := q])"
  by (induction ps arbitrary: i) (auto split: nat.splits)

lemma before_claim_holds_none:
  "list_all before_claim ps \<Longrightarrow> filter holds_weak_claim ps = []"
proof (induction ps)
  case Nil
  show ?case by simp
next
  case (Cons p ps)
  then show ?case by (cases p) simp_all
qed

lemma weak_invocations_append [simp]:
  "weak_invocations (xs @ ys) = weak_invocations xs + weak_invocations ys"
  by (simp add: weak_invocations_def)

lemma weak_invocations_simps [simp]:
  "weak_invocations [] = 0"
  "weak_invocations (live_visits src cl P ps) = 0"
  "weak_invocations (strong_events env oops_cl clds blobs thread_cl w C ts) = 0"
  by (simp_all add: weak_invocations_def strong_events_no_weak_call)

lemma weak_invocations_Cons [simp]:
  "weak_invocations (e # evs) = (if weak_visitor_call e then 1 else 0) + weak_invocations evs"
  by (simp add: weak_invocations_def)

lemma weak_oops_do_eq:
  "weak_oops_do env f cl s =
     s\<lparr>clock := clock s + live_cost env (do_object_b f) (weak_table env),
       trace := trace s @ Weak_oops_do_call (instance_id f) cl #
         live_visits Weak_handle_table cl (do_object_b f) (weak_table env)\<rparr>"
  by (simp add: weak_oops_do_def oops_do_live_eq emit_def)

lemma weak_claim_inv_step:
  assumes "weak_claim_inv n cfg"
  shows "weak_claim_inv n (schedule_step env IsAlive calls i cfg)"
proof (cases "i < length calls \<and> i < length (points cfg)")
  case False
  with assms show ?thesis by (auto simp add: schedule_step_def)
next
  case True
  then have i: "i < length (points cfg)" by simp
  note count = filter_update_count [OF i, of holds_weak_claim]
  from assms have len: "n \<le> length (trace (shared cfg))"
    and sum: "weak_invocations (drop n (trace (shared cfg))) + length (filter holds_weak_claim (points cfg)) =
          (if SHENANDOAH_RP_PS_JNIHandles_weak_oops_do \<in> process_strong_tasks (shared cfg) then 1 else 0)"
    and early: "SHENANDOAH_RP_PS_JNIHandles_weak_oops_do \<in> process_strong_tasks (shared cfg)
          \<or> list_all before_claim (points cfg)"
    by (simp_all add: weak_claim_inv_def)
  have at_i: "list_all before_claim (points cfg) \<Longrightarrow> before_claim (points cfg ! i)"
    using i by (simp add: list_all_length)
  show ?thesis
  proof (cases "points cfg ! i")
    case At_entry
    with True len sum early count [of "At_claim \<lparr>instance_id = instances (shared cfg), do_object_b = IsAlive\<rparr>"]
    show ?thesis
      by (auto simp add: weak_claim_inv_def schedule_step_def IsAlive_ctor_def emit_def list_all_update)
  next
    case (At_claim f)
    show ?thesis
    proof (cases "SHENANDOAH_RP_PS_JNIHandles_weak_oops_do \<in> process_strong_tasks (shared cfg)")
      case claimed: True
      with At_claim True len sum count [of "At_process_all_roots f"]
      show ?thesis
        by (simp add: weak_claim_inv_def schedule_step_def is_task_claimed_def emit_def)
    next
      case unclaimed: False
      with early have "list_all before_claim (points cfg)" by simp
      then have "filter holds_weak_claim (points cfg) = []" by (rule before_claim_holds_none)
      with unclaimed At_claim True len sum count [of "At_timer f"]
      show ?thesis
        by (simp add: weak_claim_inv_def schedule_step_def is_task_claimed_def emit_def)
    qed
  next
    case (At_timer f)
    with at_i early have "SHENANDOAH_RP_PS_JNIHandles_weak_oops_do \<in> process_strong_tasks (shared cfg)"
      by auto
    with At_timer True len sum
      count [of "At_weak_oops_do f \<lparr>tracker_phase = JNIWeakRoots,
        tracker_worker = call_worker_id (calls ! i), start_time = clock (shared cfg)\<rparr>"]
    show ?thesis
      by (simp add: weak_claim_inv_def schedule_step_def ShenandoahWorkerTimingsTracker_def emit_def)
  next
    case (At_weak_oops_do f t)
    with at_i early have "SHENANDOAH_RP_PS_JNIHandles_weak_oops_do \<in> process_strong_tasks (shared cfg)"
      by auto
    with At_weak_oops_do True len sum count [of "At_block_end f t"]
    show ?thesis
      by (simp add: weak_claim_inv_def schedule_step_def weak_oops_do_eq del: length_0_conv)
  next
    case (At_block_end f t)
    with at_i early have "SHENANDOAH_RP_PS_JNIHandles_weak_oops_do \<in> process_strong_tasks (shared cfg)"
      by auto
    with At_block_end True len sum count [of "At_process_all_roots f"]
    show ?thesis
      by (simp add: weak_claim_inv_def schedule_step_def tracker_release_def emit_def Let_def)
  next
    case (At_process_all_roots f)
    with at_i early have "SHENANDOAH_RP_PS_JNIHandles_weak_oops_do \<in> process_strong_tasks (shared cfg)"
      by auto
    with At_process_all_roots True len sum count [of "At_dedup f"]
    show ?thesis
      by (simp add: weak_claim_inv_def schedule_step_def par_trace par_claimed)
  next
    case (At_dedup f)
    with at_i early have "SHENANDOAH_RP_PS_JNIHandles_weak_oops_do \<in> process_strong_tasks (shared cfg)"
      by auto
    with At_dedup True len sum count [of Returned]
    show ?thesis
      by (simp add: weak_claim_inv_def schedule_step_def parallel_oops_do_eq)
  next
    case Returned
    then have "(points cfg)[i := Returned] = points cfg"
      by (metis list_update_id)
    with Returned True assms show ?thesis
      by (simp add: schedule_step_def weak_claim_inv_def)
  qed
qed

lemma weak_claim_inv_run:
  "weak_claim_inv n cfg \<Longrightarrow> weak_claim_inv n (run_schedule env IsAlive calls sched cfg)"
  unfolding run_schedule_def
  by (induction sched arbitrary: cfg) (simp_all add: weak_claim_inv_step)

lemma weak_claim_inv_start:
  "SHENANDOAH_RP_PS_JNIHandles_weak_oops_do \<notin> process_strong_tasks s \<Longrightarrow>
   weak_claim_inv (length (trace s)) (start_config calls s)"
  by (simp add: weak_claim_inv_def start_config_def list_all_length)

lemma schedule_step_length:
  "length (points (schedule_step env IsAlive calls i cfg)) = length (points cfg)"
  by (simp add: schedule_step_def split: prod.splits)

lemma run_schedule_length:
  "length (points (run_schedule env IsAlive calls sched cfg)) = length (points cfg)"
  unfolding run_schedule_def
  by (induction sched arbitrary: cfg) (simp_all add: schedule_step_length)

lemma strong_events_claim_attempts:
  "Claim_attempt t ok \<in> set (strong_events env oops_cl clds blobs thread_cl w C ts) \<Longrightarrow> t \<in> set ts"
  by (induction ts arbitrary: C) (auto split: if_splits)

lemma live_visits_no_claim_attempt:
  "Claim_attempt t ok \<notin> set (live_visits src cl P ps)"
  by (auto simp add: live_visits_def)

lemma weak_claim_fails_iff:
  "(Claim_attempt SHENANDOAH_RP_PS_JNIHandles_weak_oops_do False \<in>
      set (emitted (update_all_roots env IsAlive oops_cl clds blobs thread_cl w) s)) =
   (SHENANDOAH_RP_PS_JNIHandles_weak_oops_do \<in> process_strong_tasks s)"
  using weak_not_strong
  by (auto simp add: emitted_update_all_roots live_visits_no_claim_attempt
      dest: strong_events_claim_attempts)

lemma run_calls_weak_visitor_once:
  assumes "SHENANDOAH_RP_PS_JNIHandles_weak_oops_do \<notin> process_strong_tasks s"
  shows "map weak_invocations (run_calls env IsAlive (c # cs) s) = 1 # replicate (length cs) 0"
proof -
  have first: "weak_invocations (emitted (worker_call env IsAlive c) s) = 1"
    using assms by (simp add: worker_call_def weak_invocations_call)
  have "SHENANDOAH_RP_PS_JNIHandles_weak_oops_do \<in> process_strong_tasks (worker_call env IsAlive c s)"
    by (simp add: worker_call_def weak_claimed_after)
  then have "map weak_invocations (run_calls env IsAlive cs (worker_call env IsAlive c s)) =
      replicate (length cs) 0"
    by (rule run_calls_weak_lost)
  with first show ?thesis by simp
qed

lemmas sample_defs = sample_env_def sample_env_no_dedup_def alive_but_two_def sample_call_def
  phase_start_def weak_claimed_def every_claim_lost_def strong_catalog_def live_visits_def live_cost_def

section \<open>The claims\<close>

text \<open>
  Throughout, \<open>emitted f s\<close> is what the call \<open>f\<close> adds to the trace of \<open>s\<close>, and
  \<open>s\<close> is any state of the phase, so every statement holds for every worker at every
  moment of a phase.
\<close>

text \<open>
  C1: in a phase that starts with the weak-handle subtask unclaimed and in which
  each worker calls \<^verbatim>\<open>update_all_roots\<close> once, however the steps of the calls
  interleave, the weak-handle visitor \<^verbatim>\<open>WeakProcessor::weak_oops_do\<close> is never entered
  twice, and once at least one worker runs and every worker has returned it has been
  entered exactly once: by one worker's call and by no other.
\<close>

theorem weak_visitor_entered_once:
  assumes "SHENANDOAH_RP_PS_JNIHandles_weak_oops_do \<notin> process_strong_tasks s"
  shows "weak_invocations (new_events s (run_schedule env IsAlive calls sched (start_config calls s))) \<le> 1
    \<and> (calls \<noteq> [] \<and>
        points (run_schedule env IsAlive calls sched (start_config calls s)) =
          replicate (length calls) Returned \<longrightarrow>
        weak_invocations (new_events s (run_schedule env IsAlive calls sched (start_config calls s))) = 1)"
proof -
  let ?cfg = "run_schedule env IsAlive calls sched (start_config calls s)"
  have inv: "weak_claim_inv (length (trace s)) ?cfg"
    using assms by (intro weak_claim_inv_run weak_claim_inv_start)
  then have most: "weak_invocations (new_events s ?cfg) \<le> 1"
    by (simp add: weak_claim_inv_def new_events_def split: if_splits)
  have "weak_invocations (new_events s ?cfg) = 1"
    if some: "calls \<noteq> []" and returned: "points ?cfg = replicate (length calls) Returned"
  proof -
    from some obtain k where "length calls = Suc k"
      by (cases calls) simp_all
    with returned have "\<not> list_all before_claim (points ?cfg)"
      by simp
    moreover have "filter holds_weak_claim (points ?cfg) = []"
      by (simp add: returned)
    ultimately show ?thesis
      using inv by (simp add: weak_claim_inv_def new_events_def split: if_splits)
  qed
  with most show ?thesis by blast
qed

text \<open>
  Two workers, interleaved; worker 1 attempts the claim first and enters the visitor,
  worker 0 does not.
\<close>

theorem weak_visitor_entered_once_witness:
  "SHENANDOAH_RP_PS_JNIHandles_weak_oops_do \<notin> process_strong_tasks phase_start
   \<and> points (run_schedule sample_env alive_but_two [sample_call 0, sample_call 1]
        [0, 1, 1, 0, 1, 0, 0, 1, 1, 1, 1] (start_config [sample_call 0, sample_call 1] phase_start)) =
      [Returned, Returned]
   \<and> weak_invocations (new_events phase_start
        (run_schedule sample_env alive_but_two [sample_call 0, sample_call 1]
          [0, 1, 1, 0, 1, 0, 0, 1, 1, 1, 1] (start_config [sample_call 0, sample_call 1] phase_start))) = 1"
proof -
  have returned: "points (run_schedule sample_env alive_but_two [sample_call 0, sample_call 1]
        [0, 1, 1, 0, 1, 0, 0, 1, 1, 1, 1] (start_config [sample_call 0, sample_call 1] phase_start)) =
      [Returned, Returned]"
    by (simp add: run_schedule_def schedule_step_def start_config_def sample_defs IsAlive_ctor_def
        is_task_claimed_def ShenandoahWorkerTimingsTracker_def tracker_release_def weak_oops_do_eq
        parallel_oops_do_eq emit_def Let_def)
  show ?thesis
    using weak_visitor_entered_once [where s = phase_start and env = sample_env and IsAlive = alive_but_two
        and calls = "[sample_call 0, sample_call 1]" and sched = "[0, 1, 1, 0, 1, 0, 0, 1, 1, 1, 1]"]
      returned
    by (simp add: phase_start_def)
qed

text \<open>
  C2: every call of \<^verbatim>\<open>update_all_roots\<close> does, in this order: it constructs one
  liveness filter; it attempts one claim of the weak-handle subtask and, when the
  claim succeeds, opens a timing record for (\<^verbatim>\<open>JNIWeakRoots\<close>, \<^verbatim>\<open>worker_id\<close>), enters
  the weak-handle visitor with that filter and the object-reference closure, and closes
  the record; it calls \<^verbatim>\<open>process_all_roots\<close> with its own arguments; and it runs the
  deduplication pass exactly when deduplication is enabled. The call attempts the
  claim of the weak-handle subtask once.
\<close>

theorem update_all_roots_steps_in_order:
  "emitted (update_all_roots env IsAlive oops_cl clds blobs thread_cl w) s =
     [IsAlive_new (instances s),
      Claim_attempt SHENANDOAH_RP_PS_JNIHandles_weak_oops_do
        (SHENANDOAH_RP_PS_JNIHandles_weak_oops_do \<notin> process_strong_tasks s)] @
     (if SHENANDOAH_RP_PS_JNIHandles_weak_oops_do \<notin> process_strong_tasks s
      then Timing_start JNIWeakRoots w #
           Weak_oops_do_call (instances s) oops_cl #
           live_visits Weak_handle_table oops_cl IsAlive (weak_table env) @
           [Timing_write JNIWeakRoots w (live_cost env IsAlive (weak_table env))]
      else []) @
     emitted (process_all_roots env oops_cl clds blobs thread_cl w) (after_weak_roots env IsAlive oops_cl w s) @
     (if is_enabled env
      then Parallel_oops_do_call (instances s) oops_cl w #
           live_visits Dedup_table oops_cl IsAlive (dedup_partition env w)
      else [])
   \<and> filter weak_claim_attempt (emitted (update_all_roots env IsAlive oops_cl clds blobs thread_cl w) s) =
     [Claim_attempt SHENANDOAH_RP_PS_JNIHandles_weak_oops_do
        (SHENANDOAH_RP_PS_JNIHandles_weak_oops_do \<notin> process_strong_tasks s)]"
  by (simp add: emitted_update_all_roots strong_events_no_weak_claim [OF weak_not_strong]
      emitted_process_all_roots after_weak_roots_def insert_absorb)

text \<open>The whole trace of the first call of a phase, deduplication enabled.\<close>

theorem update_all_roots_steps_in_order_witness:
  "emitted (update_all_roots sample_env alive_but_two 100 101 102 103 0) phase_start =
     [IsAlive_new 0,
      Claim_attempt SHENANDOAH_RP_PS_JNIHandles_weak_oops_do True,
      Timing_start JNIWeakRoots 0, Weak_oops_do_call 0 100,
      Visit Weak_handle_table 100 1, Visit Weak_handle_table 100 3,
      Timing_write JNIWeakRoots 0 4,
      Process_all_roots_call 100 101 102 103 0,
      Claim_attempt Class_metadata_roots True, Timing_start Class_metadata_phase 0,
      Visit (Strong_category Class_metadata_roots) 101 10, Timing_write Class_metadata_phase 0 10,
      Claim_attempt Code_roots True, Timing_start Code_phase 0,
      Visit (Strong_category Code_roots) 102 10, Timing_write Code_phase 0 10,
      Claim_attempt Thread_roots True, Timing_start Thread_phase 0,
      Visit (Strong_category Thread_roots) 103 10, Timing_write Thread_phase 0 10,
      Claim_attempt Misc_strong_roots True, Timing_start Misc_strong_phase 0,
      Visit (Strong_category Misc_strong_roots) 100 10, Timing_write Misc_strong_phase 0 10,
      Parallel_oops_do_call 0 100 0, Visit Dedup_table 100 20]"
  using update_all_roots_steps_in_order [where env = sample_env and IsAlive = alive_but_two
      and oops_cl = 100 and clds = 101 and blobs = 102 and thread_cl = 103 and w = 0 and s = phase_start]
  by (simp add: sample_defs emitted_process_all_roots after_weak_roots_def)

text \<open>
  C3: in a call whose claim of the weak-handle subtask fails, which is a call that
  finds the subtask claimed at entry (lemma \<open>weak_claim_fails_iff\<close>), the weak-handle
  visitor is not entered and visits nothing, no timing record of the weak-roots phase
  is opened or written, and the weak-roots cell of every worker keeps its value. Yet
  \<^verbatim>\<open>process_all_roots\<close> is executed in that same call: it is called once, with the
  arguments of the call, on the state the skipped block leaves, and all it does there
  is part of the call. After the constructed filter and the failed attempt the call
  emits exactly what \<^verbatim>\<open>process_all_roots\<close> emits, that is one claim attempt for each
  strong subtask and, for each attempt that succeeds, a timing record around the
  visits of the roots of that category; the deduplication pass follows when enabled.
  Every strong subtask is claimed afterwards.
\<close>

theorem lost_weak_claim_skips_weak_roots_only:
  assumes "Claim_attempt SHENANDOAH_RP_PS_JNIHandles_weak_oops_do False \<in>
      set (emitted (update_all_roots env IsAlive oops_cl clds blobs thread_cl w) s)
    \<or> SHENANDOAH_RP_PS_JNIHandles_weak_oops_do \<in> process_strong_tasks s"
  shows "filter weak_visit (emitted (update_all_roots env IsAlive oops_cl clds blobs thread_cl w) s) = []
    \<and> filter weak_timing (emitted (update_all_roots env IsAlive oops_cl clds blobs thread_cl w) s) = []
    \<and> worker_times (update_all_roots env IsAlive oops_cl clds blobs thread_cl w s) (JNIWeakRoots, w') =
        worker_times s (JNIWeakRoots, w')
    \<and> filter strong_call (emitted (update_all_roots env IsAlive oops_cl clds blobs thread_cl w) s) =
        [Process_all_roots_call oops_cl clds blobs thread_cl w]
    \<and> set strong_catalog \<subseteq> process_strong_tasks (update_all_roots env IsAlive oops_cl clds blobs thread_cl w s)
    \<and> update_all_roots env IsAlive oops_cl clds blobs thread_cl w s =
        (let s4 = process_all_roots env oops_cl clds blobs thread_cl w
                    (s\<lparr>instances := Suc (instances s),
                       trace := trace s @ [IsAlive_new (instances s),
                         Claim_attempt SHENANDOAH_RP_PS_JNIHandles_weak_oops_do False]\<rparr>)
         in if is_enabled env
            then parallel_oops_do env \<lparr>instance_id = instances s, do_object_b = IsAlive\<rparr> oops_cl w s4
            else s4)
    \<and> emitted (update_all_roots env IsAlive oops_cl clds blobs thread_cl w) s =
        [IsAlive_new (instances s), Claim_attempt SHENANDOAH_RP_PS_JNIHandles_weak_oops_do False] @
        emitted (process_all_roots env oops_cl clds blobs thread_cl w)
          (s\<lparr>instances := Suc (instances s),
             trace := trace s @ [IsAlive_new (instances s),
               Claim_attempt SHENANDOAH_RP_PS_JNIHandles_weak_oops_do False]\<rparr>) @
        (if is_enabled env
         then Parallel_oops_do_call (instances s) oops_cl w #
              live_visits Dedup_table oops_cl IsAlive (dedup_partition env w)
         else [])
    \<and> emitted (update_all_roots env IsAlive oops_cl clds blobs thread_cl w) s =
        [IsAlive_new (instances s), Claim_attempt SHENANDOAH_RP_PS_JNIHandles_weak_oops_do False,
         Process_all_roots_call oops_cl clds blobs thread_cl w] @
        strong_events env oops_cl clds blobs thread_cl w (process_strong_tasks s) strong_catalog @
        (if is_enabled env
         then Parallel_oops_do_call (instances s) oops_cl w #
              live_visits Dedup_table oops_cl IsAlive (dedup_partition env w)
         else [])"
proof -
  from assms have claimed: "SHENANDOAH_RP_PS_JNIHandles_weak_oops_do \<in> process_strong_tasks s"
    by (simp add: weak_claim_fails_iff)
  have state: "update_all_roots env IsAlive oops_cl clds blobs thread_cl w s =
        (let s4 = process_all_roots env oops_cl clds blobs thread_cl w
                    (s\<lparr>instances := Suc (instances s),
                       trace := trace s @ [IsAlive_new (instances s),
                         Claim_attempt SHENANDOAH_RP_PS_JNIHandles_weak_oops_do False]\<rparr>)
         in if is_enabled env
            then parallel_oops_do env \<lparr>instance_id = instances s, do_object_b = IsAlive\<rparr> oops_cl w s4
            else s4)"
    using claimed update_all_roots_eq [where env = env and IsAlive = IsAlive and oops_cl = oops_cl
        and clds = clds and blobs = blobs and thread_cl = thread_cl and w = w and s = s]
    by (simp add: after_weak_roots_def)
  have old: "filter weak_visit (emitted (update_all_roots env IsAlive oops_cl clds blobs thread_cl w) s) = []
    \<and> filter weak_timing (emitted (update_all_roots env IsAlive oops_cl clds blobs thread_cl w) s) = []
    \<and> worker_times (update_all_roots env IsAlive oops_cl clds blobs thread_cl w s) (JNIWeakRoots, w') =
        worker_times s (JNIWeakRoots, w')
    \<and> filter strong_call (emitted (update_all_roots env IsAlive oops_cl clds blobs thread_cl w) s) =
        [Process_all_roots_call oops_cl clds blobs thread_cl w]
    \<and> set strong_catalog \<subseteq> process_strong_tasks (update_all_roots env IsAlive oops_cl clds blobs thread_cl w s)"
    using claimed
    by (simp add: emitted_update_all_roots strong_events_no_weak_visit
        strong_events_no_weak_timing [OF weak_not_strong] strong_events_no_strong_call
        update_all_roots_eq parallel_oops_do_eq par_weak_cell par_claimed after_weak_roots_def Let_def)
  have events: "emitted (update_all_roots env IsAlive oops_cl clds blobs thread_cl w) s =
        [IsAlive_new (instances s), Claim_attempt SHENANDOAH_RP_PS_JNIHandles_weak_oops_do False,
         Process_all_roots_call oops_cl clds blobs thread_cl w] @
        strong_events env oops_cl clds blobs thread_cl w (process_strong_tasks s) strong_catalog @
        (if is_enabled env
         then Parallel_oops_do_call (instances s) oops_cl w #
              live_visits Dedup_table oops_cl IsAlive (dedup_partition env w)
         else [])"
    using claimed by (simp add: emitted_update_all_roots insert_absorb)
  have through: "emitted (update_all_roots env IsAlive oops_cl clds blobs thread_cl w) s =
        [IsAlive_new (instances s), Claim_attempt SHENANDOAH_RP_PS_JNIHandles_weak_oops_do False] @
        emitted (process_all_roots env oops_cl clds blobs thread_cl w)
          (s\<lparr>instances := Suc (instances s),
             trace := trace s @ [IsAlive_new (instances s),
               Claim_attempt SHENANDOAH_RP_PS_JNIHandles_weak_oops_do False]\<rparr>) @
        (if is_enabled env
         then Parallel_oops_do_call (instances s) oops_cl w #
              live_visits Dedup_table oops_cl IsAlive (dedup_partition env w)
         else [])"
    unfolding events by (simp add: emitted_process_all_roots)
  from old state through events show ?thesis by blast
qed

text \<open>
  Worker 1 arrives after the weak-handle subtask was claimed and before any strong
  subtask was: it wins the four strong subtasks and visits their roots.
\<close>

theorem lost_weak_claim_skips_weak_roots_only_witness:
  "SHENANDOAH_RP_PS_JNIHandles_weak_oops_do \<in> process_strong_tasks weak_claimed
   \<and> Claim_attempt SHENANDOAH_RP_PS_JNIHandles_weak_oops_do False \<in>
       set (emitted (update_all_roots sample_env alive_but_two 100 101 102 103 1) weak_claimed)
   \<and> filter weak_visit (emitted (update_all_roots sample_env alive_but_two 100 101 102 103 1) weak_claimed) = []
   \<and> filter weak_timing (emitted (update_all_roots sample_env alive_but_two 100 101 102 103 1) weak_claimed) = []
   \<and> worker_times (update_all_roots sample_env alive_but_two 100 101 102 103 1 weak_claimed) (JNIWeakRoots, 1) = 0
   \<and> filter strong_call (emitted (update_all_roots sample_env alive_but_two 100 101 102 103 1) weak_claimed) =
       [Process_all_roots_call 100 101 102 103 1]
   \<and> emitted (update_all_roots sample_env alive_but_two 100 101 102 103 1) weak_claimed =
       [IsAlive_new 0,
        Claim_attempt SHENANDOAH_RP_PS_JNIHandles_weak_oops_do False,
        Process_all_roots_call 100 101 102 103 1,
        Claim_attempt Class_metadata_roots True, Timing_start Class_metadata_phase 1,
        Visit (Strong_category Class_metadata_roots) 101 10, Timing_write Class_metadata_phase 1 10,
        Claim_attempt Code_roots True, Timing_start Code_phase 1,
        Visit (Strong_category Code_roots) 102 10, Timing_write Code_phase 1 10,
        Claim_attempt Thread_roots True, Timing_start Thread_phase 1,
        Visit (Strong_category Thread_roots) 103 10, Timing_write Thread_phase 1 10,
        Claim_attempt Misc_strong_roots True, Timing_start Misc_strong_phase 1,
        Visit (Strong_category Misc_strong_roots) 100 10, Timing_write Misc_strong_phase 1 10,
        Parallel_oops_do_call 0 100 1, Visit Dedup_table 100 21]"
proof -
  have claimed: "SHENANDOAH_RP_PS_JNIHandles_weak_oops_do \<in> process_strong_tasks weak_claimed"
    by (simp add: weak_claimed_def phase_start_def)
  note fact = lost_weak_claim_skips_weak_roots_only [OF disjI2, OF claimed, where env = sample_env and IsAlive = alive_but_two and oops_cl = 100
      and clds = 101 and blobs = 102 and thread_cl = 103 and w = 1 and w' = 1]
  from fact have no_visit:
    "filter weak_visit (emitted (update_all_roots sample_env alive_but_two 100 101 102 103 1) weak_claimed) = []"
    by blast
  from fact have no_timing:
    "filter weak_timing (emitted (update_all_roots sample_env alive_but_two 100 101 102 103 1) weak_claimed) = []"
    by blast
  from fact have "worker_times (update_all_roots sample_env alive_but_two 100 101 102 103 1 weak_claimed)
      (JNIWeakRoots, 1) = worker_times weak_claimed (JNIWeakRoots, 1)"
    by blast
  then have cell: "worker_times (update_all_roots sample_env alive_but_two 100 101 102 103 1 weak_claimed)
      (JNIWeakRoots, 1) = 0"
    by (simp add: weak_claimed_def phase_start_def)
  from fact have called:
    "filter strong_call (emitted (update_all_roots sample_env alive_but_two 100 101 102 103 1) weak_claimed) =
       [Process_all_roots_call 100 101 102 103 1]"
    by blast
  from fact have "emitted (update_all_roots sample_env alive_but_two 100 101 102 103 1) weak_claimed =
       [IsAlive_new (instances weak_claimed), Claim_attempt SHENANDOAH_RP_PS_JNIHandles_weak_oops_do False,
        Process_all_roots_call 100 101 102 103 1] @
       strong_events sample_env 100 101 102 103 1 (process_strong_tasks weak_claimed) strong_catalog @
       (if is_enabled sample_env
        then Parallel_oops_do_call (instances weak_claimed) 100 1 #
             live_visits Dedup_table 100 alive_but_two (dedup_partition sample_env 1)
        else [])"
    by blast
  also have "\<dots> =
       [IsAlive_new 0,
        Claim_attempt SHENANDOAH_RP_PS_JNIHandles_weak_oops_do False,
        Process_all_roots_call 100 101 102 103 1,
        Claim_attempt Class_metadata_roots True, Timing_start Class_metadata_phase 1,
        Visit (Strong_category Class_metadata_roots) 101 10, Timing_write Class_metadata_phase 1 10,
        Claim_attempt Code_roots True, Timing_start Code_phase 1,
        Visit (Strong_category Code_roots) 102 10, Timing_write Code_phase 1 10,
        Claim_attempt Thread_roots True, Timing_start Thread_phase 1,
        Visit (Strong_category Thread_roots) 103 10, Timing_write Thread_phase 1 10,
        Claim_attempt Misc_strong_roots True, Timing_start Misc_strong_phase 1,
        Visit (Strong_category Misc_strong_roots) 100 10, Timing_write Misc_strong_phase 1 10,
        Parallel_oops_do_call 0 100 1, Visit Dedup_table 100 21]"
    by (simp add: sample_defs)
  finally have events: "emitted (update_all_roots sample_env alive_but_two 100 101 102 103 1) weak_claimed =
       [IsAlive_new 0,
        Claim_attempt SHENANDOAH_RP_PS_JNIHandles_weak_oops_do False,
        Process_all_roots_call 100 101 102 103 1,
        Claim_attempt Class_metadata_roots True, Timing_start Class_metadata_phase 1,
        Visit (Strong_category Class_metadata_roots) 101 10, Timing_write Class_metadata_phase 1 10,
        Claim_attempt Code_roots True, Timing_start Code_phase 1,
        Visit (Strong_category Code_roots) 102 10, Timing_write Code_phase 1 10,
        Claim_attempt Thread_roots True, Timing_start Thread_phase 1,
        Visit (Strong_category Thread_roots) 103 10, Timing_write Thread_phase 1 10,
        Claim_attempt Misc_strong_roots True, Timing_start Misc_strong_phase 1,
        Visit (Strong_category Misc_strong_roots) 100 10, Timing_write Misc_strong_phase 1 10,
        Parallel_oops_do_call 0 100 1, Visit Dedup_table 100 21]" .
  have failed: "Claim_attempt SHENANDOAH_RP_PS_JNIHandles_weak_oops_do False \<in>
       set (emitted (update_all_roots sample_env alive_but_two 100 101 102 103 1) weak_claimed)"
    unfolding events by simp
  from claimed failed no_visit no_timing cell called events show ?thesis
    by (intro conjI)
qed

text \<open>
  C4: with deduplication disabled a call contains no event of the deduplication
  pass, neither its entry nor a visit of a table entry; with deduplication enabled
  the call enters the pass once, with the liveness filter constructed in this call,
  the object-reference closure and the worker's own id. In a phase, every call enters
  the pass once when deduplication is enabled and never when it is disabled.
\<close>

theorem dedup_pass_gated_by_is_enabled:
  "filter dedup_event (emitted (update_all_roots env IsAlive oops_cl clds blobs thread_cl w) s) =
     (if is_enabled env
      then Parallel_oops_do_call (instances s) oops_cl w #
           live_visits Dedup_table oops_cl IsAlive (dedup_partition env w)
      else [])
   \<and> instances_made (emitted (update_all_roots env IsAlive oops_cl clds blobs thread_cl w) s) = [instances s]
   \<and> map dedup_invocations (run_calls env IsAlive cs s) =
       replicate (length cs) (if is_enabled env then 1 else 0)"
  by (simp add: emitted_update_all_roots strong_events_no_dedup instances_made_append run_calls_dedup)

text \<open>Three workers with deduplication disabled; one call with deduplication enabled.\<close>

theorem dedup_pass_gated_by_is_enabled_witness:
  "filter dedup_event (emitted (update_all_roots sample_env_no_dedup alive_but_two 100 101 102 103 0) phase_start) = []
   \<and> map dedup_invocations
       (run_calls sample_env_no_dedup alive_but_two [sample_call 0, sample_call 1, sample_call 2] phase_start) =
     [0, 0, 0]
   \<and> filter dedup_event (emitted (update_all_roots sample_env alive_but_two 100 101 102 103 1) phase_start) =
       [Parallel_oops_do_call 0 100 1, Visit Dedup_table 100 21]"
  using dedup_pass_gated_by_is_enabled [where env = sample_env_no_dedup and IsAlive = alive_but_two
      and oops_cl = 100 and clds = 101 and blobs = 102 and thread_cl = 103 and w = 0 and s = phase_start
      and cs = "[sample_call 0, sample_call 1, sample_call 2]"]
    dedup_pass_gated_by_is_enabled [where env = sample_env and IsAlive = alive_but_two
      and oops_cl = 100 and clds = 101 and blobs = 102 and thread_cl = 103 and w = 1 and s = phase_start
      and cs = "[]"]
  by (simp add: sample_defs)

text \<open>
  C5, as amended: a call that finds every subtask claimed writes no timing cell and
  opens no timing record, and its only visitor invocations are those of the worker's
  partition of the deduplication table, which no claim gates: none when deduplication
  is disabled, the live entries of the partition when it is enabled.
\<close>

theorem every_claim_lost_visits_dedup_partition_only:
  assumes "set (SHENANDOAH_RP_PS_JNIHandles_weak_oops_do # strong_catalog) \<subseteq> process_strong_tasks s"
  shows "filter timing_event (emitted (update_all_roots env IsAlive oops_cl clds blobs thread_cl w) s) = []
    \<and> worker_times (update_all_roots env IsAlive oops_cl clds blobs thread_cl w s) = worker_times s
    \<and> filter visit_event (emitted (update_all_roots env IsAlive oops_cl clds blobs thread_cl w) s) =
        (if is_enabled env then live_visits Dedup_table oops_cl IsAlive (dedup_partition env w) else [])"
proof -
  from assms have weak: "SHENANDOAH_RP_PS_JNIHandles_weak_oops_do \<in> process_strong_tasks s"
    and strong: "set strong_catalog \<subseteq> process_strong_tasks s"
    by simp_all
  have times: "worker_times (update_all_roots env IsAlive oops_cl clds blobs thread_cl w s) = worker_times s"
    using weak strong
    by (simp add: update_all_roots_eq parallel_oops_do_eq par_all_claimed after_weak_roots_def Let_def)
  show ?thesis
    using weak strong times
    by (simp add: emitted_update_all_roots insert_absorb strong_events_lost)
qed

text \<open>Every claim lost and deduplication disabled: no timing event and no visit.\<close>

theorem every_claim_lost_visits_dedup_partition_only_witness:
  "set (SHENANDOAH_RP_PS_JNIHandles_weak_oops_do # strong_catalog) \<subseteq> process_strong_tasks every_claim_lost
   \<and> filter timing_event
       (emitted (update_all_roots sample_env_no_dedup alive_but_two 100 101 102 103 0) every_claim_lost) = []
   \<and> filter visit_event
       (emitted (update_all_roots sample_env_no_dedup alive_but_two 100 101 102 103 0) every_claim_lost) = []"
  using every_claim_lost_visits_dedup_partition_only [where s = every_claim_lost
      and env = sample_env_no_dedup and IsAlive = alive_but_two and oops_cl = 100 and clds = 101
      and blobs = 102 and thread_cl = 103 and w = 0]
  by (simp add: sample_defs)

text \<open>
  C5 as stated fails: with deduplication enabled, worker 0 finds every subtask
  claimed and still invokes the object-reference closure on entry 20 of its partition
  of the deduplication table.
\<close>

theorem every_claim_lost_still_visits_dedup_table:
  "set (SHENANDOAH_RP_PS_JNIHandles_weak_oops_do # strong_catalog) \<subseteq> process_strong_tasks every_claim_lost
   \<and> filter visit_event
       (emitted (update_all_roots sample_env alive_but_two 100 101 102 103 0) every_claim_lost) =
     [Visit Dedup_table 100 20]"
  by (simp add: emitted_update_all_roots every_claim_lost_def phase_start_def sample_env_def
      alive_but_two_def strong_catalog_def live_visits_def)

text \<open>
  C6: a call constructs one liveness filter, and every filter it hands to the
  weak-handle visitor or to the deduplication pass is that one. The instance is new:
  the calls of a phase construct pairwise different instances, one each.
\<close>

theorem one_liveness_filter_per_call:
  "instances_made (emitted (update_all_roots env IsAlive oops_cl clds blobs thread_cl w) s) = [instances s]
   \<and> filters_passed (emitted (update_all_roots env IsAlive oops_cl clds blobs thread_cl w) s) =
       (if SHENANDOAH_RP_PS_JNIHandles_weak_oops_do \<notin> process_strong_tasks s then [instances s] else []) @
       (if is_enabled env then [instances s] else [])
   \<and> map instances_made (run_calls env IsAlive cs s) =
       map (\<lambda>k. [k]) [instances s ..< instances s + length cs]"
  using instances_made_call filters_passed_call run_calls_instances by blast

text \<open>The first call passes its instance 0 twice; three calls make the instances 0, 1, 2.\<close>

theorem one_liveness_filter_per_call_witness:
  "instances_made (emitted (update_all_roots sample_env alive_but_two 100 101 102 103 0) phase_start) = [0]
   \<and> filters_passed (emitted (update_all_roots sample_env alive_but_two 100 101 102 103 0) phase_start) = [0, 0]
   \<and> map instances_made
       (run_calls sample_env alive_but_two [sample_call 0, sample_call 1, sample_call 2] phase_start) =
     [[0], [1], [2]]"
  using one_liveness_filter_per_call [where env = sample_env and IsAlive = alive_but_two
      and oops_cl = 100 and clds = 101 and blobs = 102 and thread_cl = 103 and w = 0 and s = phase_start
      and cs = "[sample_call 0, sample_call 1, sample_call 2]"]
  by (simp add: sample_defs upt_conv_Cons del: upt_Suc)

text \<open>
  C7: two calls that differ in \<^verbatim>\<open>worker_id\<close> only leave the same subtasks claimed,
  have the same outcome of every claim attempt, and enter the weak-handle visitor and
  visit its candidates alike. Apart from the deduplication pass, whose partition is
  the worker's, their traces differ only in the worker that timing records and the
  call of \<^verbatim>\<open>process_all_roots\<close> are attributed to.
\<close>

theorem weak_claim_independent_of_worker:
  "process_strong_tasks (update_all_roots env IsAlive oops_cl clds blobs thread_cl w1 s) =
     process_strong_tasks (update_all_roots env IsAlive oops_cl clds blobs thread_cl w2 s)
   \<and> filter claim_attempt (emitted (update_all_roots env IsAlive oops_cl clds blobs thread_cl w1) s) =
       filter claim_attempt (emitted (update_all_roots env IsAlive oops_cl clds blobs thread_cl w2) s)
   \<and> filter weak_visit (emitted (update_all_roots env IsAlive oops_cl clds blobs thread_cl w1) s) =
       filter weak_visit (emitted (update_all_roots env IsAlive oops_cl clds blobs thread_cl w2) s)
   \<and> map forget_worker
        (filter (\<lambda>e. \<not> dedup_event e) (emitted (update_all_roots env IsAlive oops_cl clds blobs thread_cl w1) s)) =
       map forget_worker
        (filter (\<lambda>e. \<not> dedup_event e) (emitted (update_all_roots env IsAlive oops_cl clds blobs thread_cl w2) s))"
proof -
  have claimed: "process_strong_tasks (update_all_roots env IsAlive oops_cl clds blobs thread_cl w s) =
      insert SHENANDOAH_RP_PS_JNIHandles_weak_oops_do (process_strong_tasks s) \<union> set strong_catalog" for w
    by (simp add: update_all_roots_eq parallel_oops_do_eq par_claimed after_weak_roots_def Let_def insert_absorb)
  have keep: "filter (\<lambda>e. \<not> dedup_event e) (strong_events env oops_cl clds blobs thread_cl w C ts) =
      strong_events env oops_cl clds blobs thread_cl w C ts" for w C ts
  proof -
    have "filter dedup_event (strong_events env oops_cl clds blobs thread_cl w C ts) = []"
      by (rule strong_events_no_dedup)
    then show ?thesis by (simp add: filter_empty_conv)
  qed
  have keepv: "filter (\<lambda>e. \<not> dedup_event e) (live_visits src cl P ps) =
      (if src = Dedup_table then [] else live_visits src cl P ps)" for src cl P ps
    by (induction ps) (simp_all add: live_visits_def)
  have claims: "filter claim_attempt (strong_events env oops_cl clds blobs thread_cl w1 C ts) =
      filter claim_attempt (strong_events env oops_cl clds blobs thread_cl w2 C ts)" for C ts
    by (rule strong_events_claims)
  have forget: "map forget_worker (strong_events env oops_cl clds blobs thread_cl w1 C ts) =
      map forget_worker (strong_events env oops_cl clds blobs thread_cl w2 C ts)" for C ts
    by (rule strong_events_forget_worker)
  show ?thesis
    by (simp add: claimed emitted_update_all_roots strong_events_no_weak_visit keep keepv claims forget)
qed

text \<open>Workers 0 and 1 on the same fresh phase: the weak-handle visitor does the same.\<close>

theorem weak_claim_independent_of_worker_witness:
  "filter weak_visit (emitted (update_all_roots sample_env alive_but_two 100 101 102 103 0) phase_start) =
   filter weak_visit (emitted (update_all_roots sample_env alive_but_two 100 101 102 103 1) phase_start)
   \<and> filter claim_attempt (emitted (update_all_roots sample_env alive_but_two 100 101 102 103 0) phase_start) =
     filter claim_attempt (emitted (update_all_roots sample_env alive_but_two 100 101 102 103 1) phase_start)"
  using weak_claim_independent_of_worker [where env = sample_env and IsAlive = alive_but_two
      and oops_cl = 100 and clds = 101 and blobs = 102 and thread_cl = 103 and ?w1.0 = 0 and ?w2.0 = 1
      and s = phase_start]
  by simp

text \<open>
  C8: a candidate that the liveness filter reports as not alive is visited neither
  from the weak-handle table nor from the deduplication table during the call, by
  whatever closure.
\<close>

theorem dead_candidates_not_visited:
  assumes "\<not> IsAlive p"
  shows "Visit Weak_handle_table cl p \<notin> set (emitted (update_all_roots env IsAlive oops_cl clds blobs thread_cl w) s)
    \<and> Visit Dedup_table cl p \<notin> set (emitted (update_all_roots env IsAlive oops_cl clds blobs thread_cl w) s)"
  using assms
  by (auto simp add: emitted_update_all_roots dest: strong_events_sources live_visits_alive split: if_splits)

text \<open>Reference 2 is in both tables of the sample heap and is not alive.\<close>

theorem dead_candidates_not_visited_witness:
  "\<not> alive_but_two 2
   \<and> Visit Weak_handle_table 100 2 \<notin>
       set (emitted (update_all_roots sample_env alive_but_two 100 101 102 103 0) phase_start)
   \<and> Visit Dedup_table 100 2 \<notin>
       set (emitted (update_all_roots sample_env alive_but_two 100 101 102 103 0) phase_start)"
  using dead_candidates_not_visited [where IsAlive = alive_but_two and p = 2 and cl = 100
      and env = sample_env and oops_cl = 100 and clds = 101 and blobs = 102 and thread_cl = 103
      and w = 0 and s = phase_start]
  by (simp add: alive_but_two_def)

text \<open>
  C9: what a call does before it enters \<^verbatim>\<open>process_all_roots\<close> ends, when the claim
  succeeded, with the write that closes the weak-roots timing record; that write is
  the only timing write of this part, it goes to the cell (\<^verbatim>\<open>JNIWeakRoots\<close>,
  \<^verbatim>\<open>worker_id\<close>), and the time it adds is the time of the weak-handle visits. At the
  end of the call the weak-roots cells hold their old values, the worker's own
  increased by the time of the weak-handle visits alone when the claim succeeded:
  no time of strong-root processing or of the deduplication pass is in it.
\<close>

theorem weak_timer_released_before_strong_roots:
  "takeWhile (\<lambda>e. \<not> strong_call e) (emitted (update_all_roots env IsAlive oops_cl clds blobs thread_cl w) s) =
       [IsAlive_new (instances s),
        Claim_attempt SHENANDOAH_RP_PS_JNIHandles_weak_oops_do
          (SHENANDOAH_RP_PS_JNIHandles_weak_oops_do \<notin> process_strong_tasks s)] @
       (if SHENANDOAH_RP_PS_JNIHandles_weak_oops_do \<notin> process_strong_tasks s
        then Timing_start JNIWeakRoots w #
             Weak_oops_do_call (instances s) oops_cl #
             live_visits Weak_handle_table oops_cl IsAlive (weak_table env) @
             [Timing_write JNIWeakRoots w (live_cost env IsAlive (weak_table env))]
        else [])
   \<and> worker_times (update_all_roots env IsAlive oops_cl clds blobs thread_cl w s) (JNIWeakRoots, w') =
       (if SHENANDOAH_RP_PS_JNIHandles_weak_oops_do \<notin> process_strong_tasks s \<and> w' = w
        then worker_times s (JNIWeakRoots, w) + live_cost env IsAlive (weak_table env)
        else worker_times s (JNIWeakRoots, w'))"
proof -
  have cell: "worker_times (update_all_roots env IsAlive oops_cl clds blobs thread_cl w s) (JNIWeakRoots, w') =
      worker_times (after_weak_roots env IsAlive oops_cl w s) (JNIWeakRoots, w')"
    by (simp add: update_all_roots_eq parallel_oops_do_eq par_weak_cell Let_def)
  show ?thesis
    unfolding cell
    by (simp add: emitted_update_all_roots takeWhile_live_visits after_weak_roots_def)
qed

text \<open>
  The weak-handle visits of the sample heap take 1 + 3 units, its strong roots 40 and
  the deduplication visit 20; the weak-roots cell of worker 0 holds 4.
\<close>

theorem weak_timer_released_before_strong_roots_witness:
  "takeWhile (\<lambda>e. \<not> strong_call e)
     (emitted (update_all_roots sample_env alive_but_two 100 101 102 103 0) phase_start) =
     [IsAlive_new 0, Claim_attempt SHENANDOAH_RP_PS_JNIHandles_weak_oops_do True,
      Timing_start JNIWeakRoots 0, Weak_oops_do_call 0 100,
      Visit Weak_handle_table 100 1, Visit Weak_handle_table 100 3,
      Timing_write JNIWeakRoots 0 4]
   \<and> worker_times (update_all_roots sample_env alive_but_two 100 101 102 103 0 phase_start) (JNIWeakRoots, 0) = 4"
  using weak_timer_released_before_strong_roots [where env = sample_env and IsAlive = alive_but_two
      and oops_cl = 100 and clds = 101 and blobs = 102 and thread_cl = 103 and w = 0 and s = phase_start
      and w' = 0]
  by (simp add: sample_defs)

text \<open>
  C10: when the weak-handle subtask is claimed at entry, \<^verbatim>\<open>update_all_roots\<close> and
  \<open>strong_roots_then_dedup\<close> (the filter constructed, \<^verbatim>\<open>process_all_roots\<close> with the
  same arguments, then the deduplication pass when enabled) end in states that agree
  on everything observable. The call contributes no event of the weak-handle visitor
  and no weak-roots timing event; it constructs its liveness filter all the same and
  hands it to the deduplication pass.
\<close>

theorem lost_weak_claim_refines_strong_then_dedup:
  assumes "SHENANDOAH_RP_PS_JNIHandles_weak_oops_do \<in> process_strong_tasks s"
  shows "observe (update_all_roots env IsAlive oops_cl clds blobs thread_cl w s) =
      observe (strong_roots_then_dedup env IsAlive oops_cl clds blobs thread_cl w s)
    \<and> filter weak_visit (emitted (update_all_roots env IsAlive oops_cl clds blobs thread_cl w) s) = []
    \<and> filter weak_timing (emitted (update_all_roots env IsAlive oops_cl clds blobs thread_cl w) s) = []
    \<and> instances_made (emitted (update_all_roots env IsAlive oops_cl clds blobs thread_cl w) s) = [instances s]
    \<and> filters_passed (emitted (update_all_roots env IsAlive oops_cl clds blobs thread_cl w) s) =
        (if is_enabled env then [instances s] else [])"
proof -
  have equiv: "observe (update_all_roots env IsAlive oops_cl clds blobs thread_cl w s) =
      observe (strong_roots_then_dedup env IsAlive oops_cl clds blobs thread_cl w s)"
    using assms
    by (simp add: observe_def update_all_roots_eq strong_roots_then_dedup_def IsAlive_ctor_def emit_def
        after_weak_roots_def parallel_oops_do_eq par_trace_frame emitted_process_all_roots Let_def)
  show ?thesis
    using assms equiv
    by (simp add: emitted_update_all_roots strong_events_no_weak_visit
        strong_events_no_weak_timing [OF weak_not_strong] instances_made_append filters_passed_append)
qed

text \<open>Worker 1 after the weak-handle subtask was claimed, deduplication enabled.\<close>

theorem lost_weak_claim_refines_strong_then_dedup_witness:
  "SHENANDOAH_RP_PS_JNIHandles_weak_oops_do \<in> process_strong_tasks weak_claimed
   \<and> observe (update_all_roots sample_env alive_but_two 100 101 102 103 1 weak_claimed) =
     observe (strong_roots_then_dedup sample_env alive_but_two 100 101 102 103 1 weak_claimed)
   \<and> filters_passed (emitted (update_all_roots sample_env alive_but_two 100 101 102 103 1) weak_claimed) = [0]"
  using lost_weak_claim_refines_strong_then_dedup [where s = weak_claimed and env = sample_env
      and IsAlive = alive_but_two and oops_cl = 100 and clds = 101 and blobs = 102 and thread_cl = 103
      and w = 1]
  by (simp add: sample_defs)

end
